theory Spec2Isabelle
  imports Complex_Main
begin

section \<open>Numeric values and errors\<close>

text \<open>
  The two modules compute on IEEE doubles. The embedding uses exact real arithmetic for
  finite values and keeps the three special values a double can take, because the source
  produces them on purpose (\<^verbatim>\<open>-np.inf\<close>) or by the library's rules (\<^verbatim>\<open>np.sqrt\<close> of a
  negative number is NaN, numpy division by zero is an infinity or NaN). Inputs are finite
  reals. Rounding is modelled where a property of the source depends on it (the analytical
  solver, whose arithmetic is a parameter), and overflow where it raises (the \<^verbatim>\<open>**\<close> of
  Python floats); elsewhere rounding error, silent overflow to infinity and the sign of
  zero are outside the model.
\<close>

datatype fval = Fin real | PInf | NInf | NaN

text \<open>Every \<^verbatim>\<open>raise\<close> of the source, and every exception of a library call it makes.\<close>

datatype error =
    ShapeError_mu                 \<comment> \<open>ValueError: mu must be a length-3 vector\<close>
  | ShapeError_cov                \<comment> \<open>ValueError: cov must be a 3x3 covariance matrix\<close>
  | SymmetryError                 \<comment> \<open>ValueError: cov must be symmetric\<close>
  | SingularCovarianceError       \<comment> \<open>ValueError: cov is singular or ill-conditioned\<close>
  | DegenerateNormalizationError  \<comment> \<open>ValueError: normalization denominator is ~0\<close>
  | InvalidResolutionError        \<comment> \<open>ValueError: grid_size must be >= 3\<close>
  | LinAlgError                   \<comment> \<open>numpy.linalg.LinAlgError\<close>
  | MatmulShapeError              \<comment> \<open>ValueError of the @ operator on mismatched shapes\<close>
  | MathDomainError               \<comment> \<open>ValueError of math.sqrt on a negative number\<close>
  | OverflowError                 \<comment> \<open>OverflowError of ** on a Python float\<close>
  | IndexError

definition bind_err :: "'e + 'a \<Rightarrow> ('a \<Rightarrow> 'e + 'b) \<Rightarrow> 'e + 'b" where
  "bind_err m f = (case m of Inl e \<Rightarrow> Inl e | Inr x \<Rightarrow> f x)"

text \<open>IEEE comparisons: every comparison with NaN is false.\<close>

fun fv_less :: "fval \<Rightarrow> fval \<Rightarrow> bool" where
  "fv_less (Fin a) (Fin b) = (a < b)"
| "fv_less (Fin a) PInf = True"
| "fv_less (Fin a) NInf = False"
| "fv_less (Fin a) NaN = False"
| "fv_less PInf y = False"
| "fv_less NInf (Fin b) = True"
| "fv_less NInf PInf = True"
| "fv_less NInf NInf = False"
| "fv_less NInf NaN = False"
| "fv_less NaN y = False"

fun fv_le :: "fval \<Rightarrow> fval \<Rightarrow> bool" where
  "fv_le (Fin a) (Fin b) = (a \<le> b)"
| "fv_le (Fin a) PInf = True"
| "fv_le (Fin a) NInf = False"
| "fv_le (Fin a) NaN = False"
| "fv_le PInf PInf = True"
| "fv_le PInf (Fin b) = False"
| "fv_le PInf NInf = False"
| "fv_le PInf NaN = False"
| "fv_le NInf (Fin b) = True"
| "fv_le NInf PInf = True"
| "fv_le NInf NInf = True"
| "fv_le NInf NaN = False"
| "fv_le NaN y = False"

text \<open>\<^verbatim>\<open>np.sqrt\<close> on a finite double: NaN (and a warning, no exception) below zero.\<close>

definition np_sqrt :: "real \<Rightarrow> fval" where
  "np_sqrt x = (if x < 0 then NaN else Fin (sqrt x))"

text \<open>\<^verbatim>\<open>math.sqrt\<close> raises ValueError below zero.\<close>

definition math_sqrt :: "real \<Rightarrow> error + real" where
  "math_sqrt x = (if x < 0 then Inl MathDomainError else Inr (sqrt x))"

text \<open>
  \<^verbatim>\<open>x ** 2\<close> on a Python float raises OverflowError when the square is beyond the
  double range, that is when it rounds to infinity: from \<open>2^1024 - 2^970\<close> on, the
  midpoint between the largest double and \<open>2^1024\<close> (for \<open>|x|\<close> above about 1.34e154).
  This is the one overflow that raises; products and sums of numpy doubles overflow
  silently and stay outside the model.
\<close>

definition overflow_threshold :: real where
  "overflow_threshold = 2 ^ 1024 - 2 ^ 970"

definition pow2_overflows :: "real \<Rightarrow> bool" where
  "pow2_overflows x = (overflow_threshold \<le> x ^ 2)"

definition py_pow2 :: "real \<Rightarrow> error + real" where
  "py_pow2 x = (if pow2_overflows x then Inl OverflowError else Inr (x ^ 2))"

text \<open>Division of two finite numpy doubles: a zero divisor gives an infinity or NaN.\<close>

definition np_div :: "real \<Rightarrow> real \<Rightarrow> fval" where
  "np_div x y =
     (if y \<noteq> 0 then Fin (x / y)
      else if x = 0 then NaN
      else if 0 < x then PInf else NInf)"

text \<open>Division of a finite double by a double that may be special.\<close>

fun fv_div :: "real \<Rightarrow> fval \<Rightarrow> fval" where
  "fv_div x (Fin y) = np_div x y"
| "fv_div x PInf = Fin 0"
| "fv_div x NInf = Fin 0"
| "fv_div x NaN = NaN"

section \<open>Arrays and the @ operator\<close>

text \<open>
  A one-dimensional array is a list, a two-dimensional array the list of its rows.
  The @ operator raises ValueError when the shapes do not fit.
\<close>

definition dot :: "real list \<Rightarrow> real list \<Rightarrow> real" where
  "dot xs ys = sum_list (map2 (*) xs ys)"

definition ncols :: "real list list \<Rightarrow> nat" where
  "ncols m = (case m of [] \<Rightarrow> 0 | r # _ \<Rightarrow> length r)"

definition is_matrix :: "real list list \<Rightarrow> bool" where
  "is_matrix m = list_all (\<lambda>r. length r = ncols m) m"

definition column :: "real list list \<Rightarrow> nat \<Rightarrow> real list" where
  "column m j = map (\<lambda>r. r ! j) m"

definition matmul_vv :: "real list \<Rightarrow> real list \<Rightarrow> error + real" where
  "matmul_vv xs ys = (if length xs = length ys then Inr (dot xs ys) else Inl MatmulShapeError)"

definition matmul_vm :: "real list \<Rightarrow> real list list \<Rightarrow> error + real list" where
  "matmul_vm xs m =
     (if is_matrix m \<and> length xs = length m
      then Inr (map (\<lambda>j. dot xs (column m j)) [0..<ncols m])
      else Inl MatmulShapeError)"

definition matmul_mv :: "real list list \<Rightarrow> real list \<Rightarrow> error + real list" where
  "matmul_mv m xs =
     (if is_matrix m \<and> ncols m = length xs
      then Inr (map (\<lambda>r. dot r xs) m)
      else Inl MatmulShapeError)"

section \<open>The FX module: \<^verbatim>\<open>portfolio_optimizer.py\<close>\<close>

text \<open>
  \<^verbatim>\<open>np.linalg.inv\<close> at the one shape the module passes to it (2x2), in exact arithmetic:
  LinAlgError on a singular matrix, the adjugate over the determinant otherwise. Other
  shapes are not inverted by this model.
\<close>

fun linalg_inv :: "real list list \<Rightarrow> error + real list list" where
  "linalg_inv [[a, b], [c, d]] =
     (let det = a * d - b * c
      in if det = 0 then Inl LinAlgError
         else Inr [[d / det, - b / det], [- c / det, a / det]])"
| "linalg_inv m = Inl LinAlgError"

definition min_variance_weights :: "real \<Rightarrow> real \<Rightarrow> real \<Rightarrow> error + (fval \<times> fval)" where
  "min_variance_weights vol_eurusd vol_usdjpy corr_eurusd_usdjpy =
     (let sigma_eur = vol_eurusd;
          sigma_jpy = vol_usdjpy;
          corr_eur_jpy = - corr_eurusd_usdjpy
      in bind_err (py_pow2 sigma_eur) (\<lambda>eur2.
         bind_err (py_pow2 sigma_jpy) (\<lambda>jpy2.
           let cov = [[eur2, corr_eur_jpy * sigma_eur * sigma_jpy],
                      [corr_eur_jpy * sigma_eur * sigma_jpy, jpy2]];
               ones = [1, 1]
           in bind_err (linalg_inv cov) (\<lambda>inv_cov.
              bind_err (matmul_mv inv_cov ones) (\<lambda>num.
              bind_err (matmul_vm ones inv_cov) (\<lambda>t.
              bind_err (matmul_vv t ones) (\<lambda>den.
                case map (\<lambda>x. np_div x den) num of
                  [w0, w1] \<Rightarrow> Inr (w0, w1)
                | _ \<Rightarrow> Inl IndexError)))))))"

definition portfolio_volatility :: "real \<Rightarrow> real \<Rightarrow> real \<Rightarrow> real \<Rightarrow> real \<Rightarrow> error + real" where
  "portfolio_volatility weight_eur weight_jpy vol_eurusd vol_usdjpy corr_eurusd_usdjpy =
     (let sigma_eur = vol_eurusd;
          sigma_jpy = vol_usdjpy;
          corr_eur_jpy = - corr_eurusd_usdjpy
      in bind_err (py_pow2 sigma_eur) (\<lambda>eur2.
         bind_err (py_pow2 sigma_jpy) (\<lambda>jpy2.
           let cov = [[eur2, corr_eur_jpy * sigma_eur * sigma_jpy],
                      [corr_eur_jpy * sigma_eur * sigma_jpy, jpy2]];
               w = [weight_eur, weight_jpy]
           in bind_err (matmul_vm w cov) (\<lambda>t.
              bind_err (matmul_vv t w) (\<lambda>var.
                math_sqrt (max var 0))))))"

text \<open>The quadratic form of the two-asset covariance built with effective correlation \<open>rho\<close>.\<close>

definition fx_variance :: "real \<Rightarrow> real \<Rightarrow> real \<Rightarrow> real \<Rightarrow> real \<Rightarrow> real" where
  "fx_variance wa wb va vb rho =
     wa ^ 2 * va ^ 2 + 2 * wa * wb * (rho * va * vb) + wb ^ 2 * vb ^ 2"

text \<open>
  The closed form of the minimum-variance weight of the first of two assets with
  volatilities \<open>va\<close>, \<open>vb\<close> and correlation \<open>rho\<close>.
\<close>

definition mv_weight :: "real \<Rightarrow> real \<Rightarrow> real \<Rightarrow> real" where
  "mv_weight va vb rho = (vb ^ 2 - rho * va * vb) / (va ^ 2 + vb ^ 2 - 2 * rho * va * vb)"

section \<open>The Markowitz module: \<^verbatim>\<open>markowitz_optimizer.py\<close>\<close>

record MarkowitzResult =
  weights :: "real list"
  expected_return :: real
  volatility :: fval
  sharpe_ratio :: fval

text \<open>
  \<^verbatim>\<open>np.allclose(a, b, atol=atol)\<close> on finite arrays of one shape: every pair of entries
  satisfies \<^verbatim>\<open>|a - b| <= atol + rtol * |b|\<close>, with numpy's default \<^verbatim>\<open>rtol = 1e-05\<close>
  (the source passes \<^verbatim>\<open>atol\<close> only).
\<close>

definition rtol :: real where
  "rtol = 1 / 100000"

definition isclose :: "real \<Rightarrow> real \<Rightarrow> real \<Rightarrow> bool" where
  "isclose a b atol = (\<bar>a - b\<bar> \<le> atol + rtol * \<bar>b\<bar>)"

definition allclose :: "real list list \<Rightarrow> real list list \<Rightarrow> real \<Rightarrow> bool" where
  "allclose A B atol = list_all2 (list_all2 (\<lambda>a b. isclose a b atol)) A B"

definition transpose_m :: "real list list \<Rightarrow> real list list" where
  "transpose_m m = map (column m) [0..<ncols m]"

definition is_3x3 :: "real list list \<Rightarrow> bool" where
  "is_3x3 cov = (length cov = 3 \<and> list_all (\<lambda>r. length r = 3) cov)"

definition validate_inputs :: "real list \<Rightarrow> real list list \<Rightarrow> error + (real list \<times> real list list)" where
  "validate_inputs mu cov =
     (if length mu \<noteq> 3 then Inl ShapeError_mu
      else if \<not> is_3x3 cov then Inl ShapeError_cov
      else if \<not> allclose cov (transpose_m cov) (1 / 10 ^ 10) then Inl SymmetryError
      else Inr (mu, cov))"

definition portfolio_stats ::
  "real list \<Rightarrow> real list \<Rightarrow> real list list \<Rightarrow> real \<Rightarrow> error + MarkowitzResult" where
  "portfolio_stats w mu cov rf =
     bind_err (matmul_vv w mu) (\<lambda>exp_ret.
     bind_err (matmul_vm w cov) (\<lambda>t.
     bind_err (matmul_vv t w) (\<lambda>var.
       let vol = np_sqrt var;
           sharpe = (if fv_le vol (Fin 0) then NInf else fv_div (exp_ret - rf) vol)
       in Inr \<lparr>weights = w, expected_return = exp_ret,
                volatility = vol, sharpe_ratio = sharpe\<rparr>)))"

text \<open>
  The analytical solver is where rounding decides what the program does: which way the
  test on the denominator goes, and how far the weights are from summing to one. Its model
  therefore takes the arithmetic as a parameter: the rounding \<open>rnd\<close> that every elementwise
  operation on doubles applies to its exact result, and the two library reductions whose
  order of operations numpy leaves to its linear-algebra backend, the dot product behind
  \<^verbatim>\<open>ones @ raw\<close> and \<^verbatim>\<open>np.linalg.solve\<close>.
\<close>

record numerics =
  rnd :: "real \<Rightarrow> real"
  np_dot :: "real list \<Rightarrow> real list \<Rightarrow> real"
  np_solve :: "real list list \<Rightarrow> real list \<Rightarrow> error + real list"

text \<open>The @ operator on two one-dimensional arrays, with the library's dot product.\<close>

definition matmul_vv_np :: "numerics \<Rightarrow> real list \<Rightarrow> real list \<Rightarrow> error + real" where
  "matmul_vv_np nm xs ys =
     (if length xs = length ys then Inr (np_dot nm xs ys) else Inl MatmulShapeError)"

text \<open>The double that the literal \<^verbatim>\<open>1e-14\<close> denotes (just below \<open>10^-14\<close>).\<close>

definition degenerate_eps :: real where
  "degenerate_eps = 6338253001141147 / 2 ^ 99"

definition optimize_sharpe_unconstrained ::
  "numerics \<Rightarrow> real list \<Rightarrow> real list list \<Rightarrow> real \<Rightarrow> error + MarkowitzResult" where
  "optimize_sharpe_unconstrained nm mu0 cov0 rf =
     bind_err (validate_inputs mu0 cov0) (\<lambda>(mu, cov).
       let ones = replicate 3 1;
           excess = map2 (\<lambda>m t. rnd nm (m - t)) mu (map (\<lambda>one. rnd nm (rf * one)) ones)
       in case np_solve nm cov excess of
            Inl LinAlgError \<Rightarrow> Inl SingularCovarianceError
          | Inl exc \<Rightarrow> Inl exc
          | Inr raw \<Rightarrow>
              bind_err (matmul_vv_np nm ones raw) (\<lambda>denom.
                if \<bar>denom\<bar> < degenerate_eps then Inl DegenerateNormalizationError
                else let w = map (\<lambda>x. rnd nm (x / denom)) raw
                     in portfolio_stats w mu cov rf))"

text \<open>
  The statistics of the returned record are those of \<^verbatim>\<open>portfolio_stats\<close> as modelled
  above; it hands the weights through unchanged and cannot fail on three weights, three
  returns and a 3x3 matrix, which is all the properties of this solver rest on.
\<close>

text \<open>
  Exact arithmetic: no rounding, the exact dot product, and the exact solution of the
  linear system at the one shape the module uses (Cramer's rule; a singular matrix has no
  solution, which is the LinAlgError). \<^verbatim>\<open>np.linalg.solve\<close> itself eliminates with rounding
  and raises only on a pivot that is exactly zero; it agrees with \<open>exact_solve\<close> where the
  elimination does not round, as on the identity matrix.
\<close>

definition det3 ::
  "real \<Rightarrow> real \<Rightarrow> real \<Rightarrow> real \<Rightarrow> real \<Rightarrow> real \<Rightarrow> real \<Rightarrow> real \<Rightarrow> real \<Rightarrow> real" where
  "det3 a b c d e f g h i = a * (e * i - f * h) - b * (d * i - f * g) + c * (d * h - e * g)"

fun exact_solve :: "real list list \<Rightarrow> real list \<Rightarrow> error + real list" where
  "exact_solve [[a, b, c], [d, e, f], [g, h, i]] [p, q, r] =
     (let D = det3 a b c d e f g h i
      in if D = 0 then Inl LinAlgError
         else Inr [det3 p b c q e f r h i / D,
                   det3 a p c d q f g r i / D,
                   det3 a b p d e q g h r / D])"
| "exact_solve m v = Inl LinAlgError"

definition exact_numerics :: numerics where
  "exact_numerics = \<lparr>rnd = (\<lambda>x. x), np_dot = dot, np_solve = exact_solve\<rparr>"

text \<open>
  Doubles: an elementwise operation returns its exact result rounded to the nearest
  number with a 53-bit significand, ties to the even one (the exponent range is not
  modelled). \<open>expo x\<close> is the binary exponent of \<open>x\<close>.
\<close>

definition round_ties_even :: "real \<Rightarrow> int" where
  "round_ties_even x =
     (let f = \<lfloor>x\<rfloor>; d = x - of_int f
      in if d < 1 / 2 then f
         else if 1 / 2 < d then f + 1
         else if even f then f else f + 1)"

definition expo :: "real \<Rightarrow> int" where
  "expo x = \<lfloor>log 2 \<bar>x\<bar>\<rfloor>"

definition fl :: "real \<Rightarrow> real" where
  "fl x = (if x = 0 then 0
           else of_int (round_ties_even (x / 2 powi (expo x - 52))) * 2 powi (expo x - 52))"

text \<open>
  Doubles for the elementwise operations, with the two reductions still exact. This is
  what the program computes wherever its reductions do not round: a dot product whose
  partial sums are integers below \<open>2^53\<close>, a solve on the identity matrix.
\<close>

definition rounded_elementwise :: numerics where
  "rounded_elementwise = \<lparr>rnd = fl, np_dot = dot, np_solve = exact_solve\<rparr>"

text \<open>Python's \<^verbatim>\<open>round\<close> with one argument: to the nearest integer, halves to the even one.\<close>

definition py_round :: "real \<Rightarrow> int" where
  "py_round x =
     (let f = \<lfloor>x\<rfloor>; d = x - of_int f
      in if d < 1 / 2 then f
         else if 1 / 2 < d then f + 1
         else if even f then f else f + 1)"

text \<open>
  \<^verbatim>\<open>np.linspace(start, stop, num)\<close>: \<open>num\<close> points, the \<open>i\<close>-th at
  \<open>start + i * (stop - start) / (num - 1)\<close>; a single point is \<open>start\<close>.
\<close>

definition linspace :: "real \<Rightarrow> real \<Rightarrow> nat \<Rightarrow> real list" where
  "linspace start stop num =
     (if num = 1 then [start]
      else map (\<lambda>i. start + real i * ((stop - start) / real (num - 1))) [0..<num])"

text \<open>The inner loop over \<^verbatim>\<open>w2_values\<close>, threading \<^verbatim>\<open>best\<close>.\<close>

fun inner_loop ::
  "real list \<Rightarrow> real list list \<Rightarrow> real \<Rightarrow> real \<Rightarrow> real list \<Rightarrow> MarkowitzResult
   \<Rightarrow> error + MarkowitzResult" where
  "inner_loop mu cov rf w1 [] best = Inr best"
| "inner_loop mu cov rf w1 (w2 # w2_values) best =
     (let w3 = 1 - w1 - w2;
          w = [w1, w2, w3]
      in bind_err (portfolio_stats w mu cov rf) (\<lambda>stats.
           inner_loop mu cov rf w1 w2_values
             (if fv_less (sharpe_ratio best) (sharpe_ratio stats) then stats else best)))"

text \<open>The outer loop over \<^verbatim>\<open>grid\<close>.\<close>

fun outer_loop ::
  "real list \<Rightarrow> real list list \<Rightarrow> real \<Rightarrow> int \<Rightarrow> real list \<Rightarrow> MarkowitzResult
   \<Rightarrow> error + MarkowitzResult" where
  "outer_loop mu cov rf grid_size [] best = Inr best"
| "outer_loop mu cov rf grid_size (w1 # grid) best =
     (let max_w2 = 1 - w1;
          n2 = max 2 (py_round (max_w2 * of_int (grid_size - 1)) + 1);
          w2_values = linspace 0 max_w2 (nat n2)
      in bind_err (inner_loop mu cov rf w1 w2_values best) (\<lambda>best'.
           outer_loop mu cov rf grid_size grid best'))"

definition optimize_sharpe_long_only ::
  "real list \<Rightarrow> real list list \<Rightarrow> real \<Rightarrow> int \<Rightarrow> error + MarkowitzResult" where
  "optimize_sharpe_long_only mu0 cov0 rf grid_size =
     bind_err (validate_inputs mu0 cov0) (\<lambda>(mu, cov).
       if grid_size < 3 then Inl InvalidResolutionError
       else let best = \<lparr>weights = [1, 0, 0], expected_return = mu ! 0,
                         volatility = np_sqrt (cov ! 0 ! 0), sharpe_ratio = NInf\<rparr>;
                grid = linspace 0 1 (nat grid_size)
            in outer_loop mu cov rf grid_size grid best)"

definition optimize_sharpe ::
  "numerics \<Rightarrow> real list \<Rightarrow> real list list \<Rightarrow> real \<Rightarrow> bool \<Rightarrow> int
   \<Rightarrow> error + MarkowitzResult" where
  "optimize_sharpe nm mu cov rf long_only grid_size =
     (if long_only then optimize_sharpe_long_only mu cov rf grid_size
      else optimize_sharpe_unconstrained nm mu cov rf)"

text \<open>The vector \<^verbatim>\<open>excess = mu - rf * ones\<close> as the analytical solver computes it.\<close>

definition excess_returns :: "numerics \<Rightarrow> real list \<Rightarrow> real \<Rightarrow> real list" where
  "excess_returns nm mu rf =
     map2 (\<lambda>m t. rnd nm (m - t)) mu (map (\<lambda>one. rnd nm (rf * one)) (replicate 3 1))"

text \<open>The quadratic form \<open>w \<cdot> cov \<cdot> w\<close> as \<^verbatim>\<open>w @ cov @ w\<close> computes it.\<close>

definition quad_form :: "real list \<Rightarrow> real list list \<Rightarrow> real" where
  "quad_form w cov = dot (map (\<lambda>j. dot w (column cov j)) [0..<ncols cov]) w"

section \<open>Notions used to state the properties of the grid search\<close>

text \<open>
  The candidates as the specification lists them: \<open>w1\<close> over \<open>resolution\<close> uniformly
  spaced points in [0, 1]; for each \<open>w1\<close>, \<open>w2\<close> over
  \<open>max (2, round ((1 - w1) * (resolution - 1)) + 1)\<close> uniformly spaced points in
  [0, 1 - w1]; and \<open>w3 = 1 - w1 - w2\<close>.
\<close>

definition spec_candidates :: "int \<Rightarrow> (real \<times> real \<times> real) list" where
  "spec_candidates resolution =
     concat (map (\<lambda>w1.
        map (\<lambda>w2. (w1, w2, 1 - w1 - w2))
          (linspace 0 (1 - w1)
             (nat (max 2 (py_round ((1 - w1) * of_int (resolution - 1)) + 1)))))
        (linspace 0 1 (nat resolution)))"

text \<open>
  The body of the source's inner loop (evaluate the statistics, replace \<^verbatim>\<open>best\<close> on a
  strictly greater Sharpe ratio), run over a list of weight triples in order.
\<close>

fun evaluate_candidates ::
  "real list \<Rightarrow> real list list \<Rightarrow> real \<Rightarrow> (real \<times> real \<times> real) list \<Rightarrow> MarkowitzResult
   \<Rightarrow> error + MarkowitzResult" where
  "evaluate_candidates mu cov rf [] best = Inr best"
| "evaluate_candidates mu cov rf ((w1, w2, w3) # cs) best =
     bind_err (portfolio_stats [w1, w2, w3] mu cov rf) (\<lambda>stats.
       evaluate_candidates mu cov rf cs
         (if fv_less (sharpe_ratio best) (sharpe_ratio stats) then stats else best))"

text \<open>The record \<^verbatim>\<open>best\<close> is initialised to in \<^verbatim>\<open>optimize_sharpe_long_only\<close>.\<close>

definition initial_best :: "real list \<Rightarrow> real list list \<Rightarrow> MarkowitzResult" where
  "initial_best mu cov =
     \<lparr>weights = [1, 0, 0], expected_return = mu ! 0,
      volatility = np_sqrt (cov ! 0 ! 0), sharpe_ratio = NInf\<rparr>"

text \<open>What \<^verbatim>\<open>portfolio_stats\<close> returns on a weight triple (it returns on validated inputs).\<close>

definition candidate_stats ::
  "real list \<Rightarrow> real list list \<Rightarrow> real \<Rightarrow> real \<times> real \<times> real \<Rightarrow> MarkowitzResult" where
  "candidate_stats mu cov rf c =
     (case c of (w1, w2, w3) \<Rightarrow> projr (portfolio_stats [w1, w2, w3] mu cov rf))"

text \<open>The comparison of the loop body: \<^verbatim>\<open>if stats.sharpe_ratio > best.sharpe_ratio\<close>.\<close>

definition keep_better :: "MarkowitzResult \<Rightarrow> MarkowitzResult \<Rightarrow> MarkowitzResult" where
  "keep_better best stats =
     (if fv_less (sharpe_ratio best) (sharpe_ratio stats) then stats else best)"

text \<open>Iteration order of the two loops: lower \<open>w1\<close> first, then lower \<open>w2\<close>.\<close>

definition earlier :: "real \<times> real \<times> real \<Rightarrow> real \<times> real \<times> real \<Rightarrow> bool" where
  "earlier c d = (fst c < fst d \<or> (fst c = fst d \<and> fst (snd c) \<le> fst (snd d)))"

section \<open>Properties of the FX module\<close>

lemma upt_2: "[0..<2] = [0, Suc 0]"
  by (simp add: upt_rec)

lemma matmul_vm_2x2:
  "matmul_vm [x, y] [[a, b], [c, d]] = Inr [x * a + y * c, x * b + y * d]"
  by (simp add: matmul_vm_def is_matrix_def ncols_def column_def dot_def upt_2)

lemma matmul_mv_2x2:
  "matmul_mv [[a, b], [c, d]] [x, y] = Inr [a * x + b * y, c * x + d * y]"
  by (simp add: matmul_mv_def is_matrix_def ncols_def dot_def)

lemma matmul_vv_2: "matmul_vv [a, b] [x, y] = Inr (a * x + b * y)"
  by (simp add: matmul_vv_def dot_def)

lemma py_pow2_ok: "\<not> pow2_overflows x \<Longrightarrow> py_pow2 x = Inr (x ^ 2)"
  by (simp add: py_pow2_def)

lemma py_pow2_overflow: "pow2_overflows x \<Longrightarrow> py_pow2 x = Inl OverflowError"
  by (simp add: py_pow2_def)

lemma small_no_overflow: "\<bar>x\<bar> \<le> 2 \<Longrightarrow> \<not> pow2_overflows x"
proof -
  assume "\<bar>x\<bar> \<le> 2"
  then have "\<bar>x\<bar> ^ 2 \<le> 2 ^ 2" by (intro power_mono) simp_all
  then have "x ^ 2 \<le> 2 ^ 2" by simp
  moreover have "(2::real) ^ 2 < overflow_threshold" by (simp add: overflow_threshold_def)
  ultimately show ?thesis by (simp add: pow2_overflows_def)
qed

lemma portfolio_volatility_eq:
  assumes "\<not> pow2_overflows va" "\<not> pow2_overflows vb"
  shows "portfolio_volatility wa wb va vb c = Inr (sqrt (max (fx_variance wa wb va vb (- c)) 0))"
proof -
  have e: "(wa * va ^ 2 + wb * (- c * va * vb)) * wa
           + (wa * (- c * va * vb) + wb * vb ^ 2) * wb = fx_variance wa wb va vb (- c)"
    by (simp add: fx_variance_def power2_eq_square algebra_simps)
  show ?thesis
    unfolding portfolio_volatility_def Let_def py_pow2_ok [OF assms(1)] py_pow2_ok [OF assms(2)]
      bind_err_def matmul_vm_2x2 sum.case matmul_vv_2 e
    by (simp add: math_sqrt_def)
qed

lemma mvw_closed:
  assumes oa: "\<not> pow2_overflows va" and ob: "\<not> pow2_overflows vb"
      and det: "va ^ 2 * vb ^ 2 - (- c * va * vb) * (- c * va * vb) \<noteq> 0"
      and s: "va ^ 2 + vb ^ 2 + 2 * c * va * vb \<noteq> 0"
  shows "min_variance_weights va vb c =
     Inr (Fin ((vb ^ 2 + c * va * vb) / (va ^ 2 + vb ^ 2 + 2 * c * va * vb)),
          Fin ((va ^ 2 + c * va * vb) / (va ^ 2 + vb ^ 2 + 2 * c * va * vb)))"
proof -
  define b where "b = - c * va * vb"
  define det where "det = va ^ 2 * vb ^ 2 - b * b"
  have d0: "det \<noteq> 0" using det by (simp add: det_def b_def)
  have inv: "linalg_inv [[va ^ 2, b], [b, vb ^ 2]]
             = Inr [[vb ^ 2 / det, - b / det], [- b / det, va ^ 2 / det]]"
    using d0 by (simp add: det_def Let_def)
  define den where "den = (vb ^ 2 / det + - b / det) + (- b / det + va ^ 2 / det)"
  have den_eq: "den = (va ^ 2 + vb ^ 2 + 2 * c * va * vb) / det"
    using d0 by (simp add: den_def b_def field_simps)
  have den0: "den \<noteq> 0" using s d0 by (simp add: den_eq)
  have cancel: "(p / det) / (q / det) = p / q" for p q :: real
    using d0 by simp
  have n0: "vb ^ 2 / det + - b / det = (vb ^ 2 + c * va * vb) / det"
    by (simp add: b_def add_divide_distrib)
  have n1: "- b / det + va ^ 2 / det = (va ^ 2 + c * va * vb) / det"
    by (simp add: b_def add_divide_distrib)
  have w0: "(vb ^ 2 / det + - b / det) / den = (vb ^ 2 + c * va * vb) / (va ^ 2 + vb ^ 2 + 2 * c * va * vb)"
    unfolding n0 den_eq cancel ..
  have w1: "(- b / det + va ^ 2 / det) / den = (va ^ 2 + c * va * vb) / (va ^ 2 + vb ^ 2 + 2 * c * va * vb)"
    unfolding n1 den_eq cancel ..
  have "min_variance_weights va vb c =
        Inr (np_div (vb ^ 2 / det * 1 + - b / det * 1) (1 * (vb ^ 2 / det) + 1 * (- b / det) + (1 * (- b / det) + 1 * (va ^ 2 / det))),
             np_div (- b / det * 1 + va ^ 2 / det * 1) (1 * (vb ^ 2 / det) + 1 * (- b / det) + (1 * (- b / det) + 1 * (va ^ 2 / det))))"
    unfolding min_variance_weights_def Let_def py_pow2_ok [OF oa] py_pow2_ok [OF ob]
      b_def[symmetric] inv bind_err_def sum.case matmul_mv_2x2 matmul_vm_2x2 matmul_vv_2
    by simp
  then show ?thesis
    using den0 w0 w1 by (simp add: np_div_def den_def)
qed

lemma min_variance_weights_symmetric:
  "min_variance_weights (1 / 10) (1 / 10) 0 = Inr (Fin (1 / 2), Fin (1 / 2))"
  using mvw_closed [of "1 / 10" "1 / 10" 0] small_no_overflow [of "1 / 10"]
  by (simp add: power2_eq_square)

lemma portfolio_volatility_symmetric:
  "portfolio_volatility (1/2) (1/2) (1/10) (1/10) 0 = Inr ((1/10) / sqrt 2)"
proof -
  have sq: "sqrt (1 / 200) = (1 / 10) / sqrt 2"
  proof -
    have "sqrt (1 / 200) = sqrt ((1 / 10) ^ 2 / 2)" by (simp add: power2_eq_square)
    also have "\<dots> = (1 / 10) / sqrt 2" by (simp only: real_sqrt_divide real_sqrt_abs)
    finally show ?thesis .
  qed
  have fv: "fx_variance (1/2) (1/2) (1/10) (1/10) (- 0) = 1 / 200"
    by (simp add: fx_variance_def power2_eq_square)
  have mx: "max (1 / 200 :: real) 0 = 1 / 200" by simp
  have "\<not> pow2_overflows (1 / 10)" by (rule small_no_overflow) simp
  from portfolio_volatility_eq [OF this this, of "1 / 2" "1 / 2" 0]
  show ?thesis unfolding fv mx sq .
qed


text \<open>
  C7. Both functions build the covariance with the negated input correlation: whenever the
  squares do not overflow, the covariance is invertible and the normalising sum is not
  zero, the weights are the closed-form minimum-variance weights at correlation \<open>- c\<close>,
  and the volatility is the clamped quadratic form at correlation \<open>- c\<close>. In the symmetric
  case (0.10, 0.10, 0) the weights are exactly one half each and the volatility at those
  weights is 0.10 / sqrt 2.
\<close>

theorem fx_negated_correlation:
  "(\<not> pow2_overflows va \<and> \<not> pow2_overflows vb
      \<and> va ^ 2 * vb ^ 2 - (- c * va * vb) * (- c * va * vb) \<noteq> 0
      \<and> va ^ 2 + vb ^ 2 - 2 * (- c) * va * vb \<noteq> 0
     \<longrightarrow> min_variance_weights va vb c
          = Inr (Fin (mv_weight va vb (- c)), Fin (mv_weight vb va (- c))))
   \<and> (\<not> pow2_overflows va \<and> \<not> pow2_overflows vb
     \<longrightarrow> portfolio_volatility wa wb va vb c
          = Inr (sqrt (max (fx_variance wa wb va vb (- c)) 0)))
   \<and> min_variance_weights (1 / 10) (1 / 10) 0 = Inr (Fin (1 / 2), Fin (1 / 2))
   \<and> portfolio_volatility (1 / 2) (1 / 2) (1 / 10) (1 / 10) 0 = Inr ((1 / 10) / sqrt 2)"
proof -
  have "min_variance_weights va vb c
          = Inr (Fin (mv_weight va vb (- c)), Fin (mv_weight vb va (- c)))"
    if "\<not> pow2_overflows va" "\<not> pow2_overflows vb"
      and "va ^ 2 * vb ^ 2 - (- c * va * vb) * (- c * va * vb) \<noteq> 0"
      and "va ^ 2 + vb ^ 2 - 2 * (- c) * va * vb \<noteq> 0"
  proof -
    have "va ^ 2 + vb ^ 2 + 2 * c * va * vb \<noteq> 0" using that(4) by simp
    from mvw_closed [OF that(1) that(2) that(3) this] show ?thesis
      by (simp add: mv_weight_def algebra_simps)
  qed
  then show ?thesis
    using portfolio_volatility_eq min_variance_weights_symmetric portfolio_volatility_symmetric
    by blast
qed

theorem fx_negated_correlation_witness:
  "min_variance_weights 1 2 (1 / 2) = Inr (Fin (5 / 7), Fin (2 / 7))
   \<and> portfolio_volatility (5 / 7) (2 / 7) 1 2 (1 / 2) = Inr (sqrt (3 / 7))"
  using fx_negated_correlation [of 1 2 "1 / 2" "5 / 7" "2 / 7"]
    small_no_overflow [of 1] small_no_overflow [of 2]
  by (simp add: mv_weight_def fx_variance_def power2_eq_square)

text \<open>
  C10, as the code has it. \<^verbatim>\<open>portfolio_volatility\<close> fails in one way only: the squaring
  of a volatility raises OverflowError when the square is beyond the double range. For
  all other real weights, volatilities and correlation (negative volatilities and
  correlations outside [-1, 1] included) it returns the square root of the variance
  clamped at zero, which is non-negative; \<^verbatim>\<open>math.sqrt\<close> never sees a negative number.
\<close>

theorem portfolio_volatility_cases:
  "(pow2_overflows va \<or> pow2_overflows vb
      \<longrightarrow> portfolio_volatility wa wb va vb c = Inl OverflowError)
   \<and> (\<not> pow2_overflows va \<and> \<not> pow2_overflows vb
      \<longrightarrow> (\<exists>v. portfolio_volatility wa wb va vb c = Inr v
             \<and> v = sqrt (max (fx_variance wa wb va vb (- c)) 0) \<and> 0 \<le> v))"
proof -
  have "portfolio_volatility wa wb va vb c = Inl OverflowError"
    if "pow2_overflows va \<or> pow2_overflows vb"
    using that
    by (auto simp add: portfolio_volatility_def Let_def py_pow2_def bind_err_def)
  moreover have "\<exists>v. portfolio_volatility wa wb va vb c = Inr v
             \<and> v = sqrt (max (fx_variance wa wb va vb (- c)) 0) \<and> 0 \<le> v"
    if "\<not> pow2_overflows va" "\<not> pow2_overflows vb"
    using portfolio_volatility_eq [OF that] by simp
  ultimately show ?thesis by blast
qed

lemma pow2_overflows_big: "pow2_overflows (10 ^ 200)"
proof -
  have "(2::real) ^ 64 \<le> 10 ^ 20" by simp
  then have "((2::real) ^ 64) ^ 16 \<le> (10 ^ 20) ^ 16" by (rule power_mono) simp
  then have "(2::real) ^ (64 * 16) \<le> 10 ^ (20 * 16)" by (simp only: power_mult)
  then have b: "(2::real) ^ 1024 \<le> 10 ^ 320"
    by (simp only: numeral_times_numeral semiring_norm)
  have "(10::real) ^ 320 \<le> 10 ^ 400" by (rule power_increasing) simp_all
  moreover have "((10::real) ^ 200) ^ 2 = 10 ^ 400" by (simp only: power_mult [symmetric]) simp
  moreover have "(0::real) \<le> 2 ^ 970" by simp
  ultimately have "(2::real) ^ 1024 - 2 ^ 970 \<le> (10 ^ 200) ^ 2" using b by linarith
  then show ?thesis by (simp only: pow2_overflows_def overflow_threshold_def)
qed

theorem portfolio_volatility_cases_witness:
  "portfolio_volatility 1 (- 1) (- 1) 2 3 = Inr 0
   \<and> portfolio_volatility 1 1 1 (10 ^ 200) 0 = Inl OverflowError"
proof -
  have "portfolio_volatility 1 1 1 (10 ^ 200) 0 = Inl OverflowError"
    using portfolio_volatility_cases [of 1 "10 ^ 200" 1 1 0] pow2_overflows_big by blast
  moreover have "portfolio_volatility 1 (- 1) (- 1) 2 3 = Inr 0"
    using portfolio_volatility_cases [of "- 1" 2 1 "- 1" 3]
      small_no_overflow [of "- 1"] small_no_overflow [of 2]
    by (simp add: fx_variance_def)
  ultimately show ?thesis by blast
qed

text \<open>
  So the function is not total: a volatility of 1e200 is a real number it can be given,
  and squaring it raises.
\<close>

theorem portfolio_volatility_overflow:
  "portfolio_volatility 1 1 (10 ^ 200) 1 0 = Inl OverflowError"
  unfolding portfolio_volatility_def Let_def py_pow2_overflow [OF pow2_overflows_big] bind_err_def
    sum.case ..

section \<open>Validation\<close>

lemma upt_3: "[0..<3] = [0, Suc 0, 2]"
  by (simp add: upt_rec numeral_3_eq_3)

lemma length_3_conv: "length xs = 3 \<longleftrightarrow> (\<exists>a b c. xs = [a, b, c])"
  by (auto simp add: numeral_3_eq_3 length_Suc_conv)

lemma is_3x3_conv:
  "is_3x3 cov \<longleftrightarrow> (\<exists>a b c d e f g h i. cov = [[a, b, c], [d, e, f], [g, h, i]])"
  by (auto simp add: is_3x3_def length_3_conv)

lemma is_3x3_shapes: "is_3x3 cov \<Longrightarrow> is_matrix cov \<and> length cov = 3 \<and> ncols cov = 3"
  by (cases cov) (auto simp add: is_3x3_def is_matrix_def ncols_def)

lemma all_less_3: "(\<forall>i<3. P i) \<longleftrightarrow> P 0 \<and> P (Suc 0) \<and> P (2::nat)"
proof -
  have "i < 3 \<longleftrightarrow> i = 0 \<or> i = Suc 0 \<or> i = 2" for i :: nat by auto
  then show ?thesis by auto
qed

lemma allclose_transpose_3x3:
  assumes "is_3x3 cov"
  shows "allclose cov (transpose_m cov) atol
         \<longleftrightarrow> (\<forall>i<3. \<forall>j<3. \<bar>cov ! i ! j - cov ! j ! i\<bar> \<le> atol + rtol * \<bar>cov ! j ! i\<bar>)"
proof -
  from assms obtain a b c d e f g h i where cov: "cov = [[a, b, c], [d, e, f], [g, h, i]]"
    unfolding is_3x3_conv by blast
  show ?thesis
    unfolding cov all_less_3
    by (simp add: allclose_def transpose_m_def ncols_def column_def upt_3 isclose_def)
qed

lemma validate_inputs_Inr:
  "validate_inputs mu cov = Inr (mu', cov')
   \<Longrightarrow> mu' = mu \<and> cov' = cov \<and> length mu = 3 \<and> is_3x3 cov"
  by (auto simp add: validate_inputs_def split: if_splits)

text \<open>
  C9, as the code has it. The checks run in order: the length of \<open>mu\<close>, the shape of
  \<open>cov\<close>, then symmetry; the symmetry check is numpy's \<^verbatim>\<open>allclose\<close> with
  \<^verbatim>\<open>atol = 1e-10\<close> and the default relative tolerance, so it fires when some pair of
  entries has \<open>|cov[i][j] - cov[j][i]| > 1e-10 + 1e-5 * |cov[j][i]|\<close>. Inputs that pass
  are returned unchanged and nothing else fails.
\<close>

theorem validate_inputs_checks:
  "validate_inputs mu cov =
     (if length mu \<noteq> 3 then Inl ShapeError_mu
      else if \<not> is_3x3 cov then Inl ShapeError_cov
      else if \<exists>i<3. \<exists>j<3. 1 / 10 ^ 10 + 1 / 100000 * \<bar>cov ! j ! i\<bar> < \<bar>cov ! i ! j - cov ! j ! i\<bar>
           then Inl SymmetryError
      else Inr (mu, cov))"
proof (cases "is_3x3 cov")
  case True
  have "(\<not> allclose cov (transpose_m cov) (1 / 10 ^ 10))
        \<longleftrightarrow> (\<exists>i<3. \<exists>j<3. 1 / 10 ^ 10 + 1 / 100000 * \<bar>cov ! j ! i\<bar> < \<bar>cov ! i ! j - cov ! j ! i\<bar>)"
    unfolding allclose_transpose_3x3 [OF True] rtol_def by (simp add: not_le)
  then show ?thesis by (simp add: validate_inputs_def)
next
  case False
  then show ?thesis by (simp add: validate_inputs_def)
qed

theorem validate_inputs_checks_witness:
  "validate_inputs [0, 0, 0] [[0, 1, 0], [2, 0, 0], [0, 0, 0]] = Inl SymmetryError
   \<and> validate_inputs [0, 0] [[0, 1, 0], [2, 0, 0], [0, 0, 0]] = Inl ShapeError_mu
   \<and> validate_inputs [0, 0, 0] [[0, 1], [2, 0]] = Inl ShapeError_cov
   \<and> validate_inputs [1, 2, 3] [[1, 0, 0], [0, 1, 0], [0, 0, 1]]
       = Inr ([1, 2, 3], [[1, 0, 0], [0, 1, 0], [0, 0, 1]])"
  using validate_inputs_checks [of "[0, 0, 0]" "[[0, 1, 0], [2, 0, 0], [0, 0, 0]]"]
    validate_inputs_checks [of "[0, 0]" "[[0, 1, 0], [2, 0, 0], [0, 0, 0]]"]
    validate_inputs_checks [of "[0, 0, 0]" "[[0, 1], [2, 0]]"]
    validate_inputs_checks [of "[1, 2, 3]" "[[1, 0, 0], [0, 1, 0], [0, 0, 1]]"]
  by (simp add: is_3x3_def all_less_3)

text \<open>
  The specification speaks of an absolute tolerance of 1e-10 alone. Entries 1 and 1.000001
  differ by 1e-6, far more than 1e-10, and validation accepts the matrix.
\<close>

theorem validate_inputs_relative_tolerance:
  "validate_inputs [0, 0, 0] [[0, 1, 0], [1000001 / 1000000, 0, 0], [0, 0, 0]]
     = Inr ([0, 0, 0], [[0, 1, 0], [1000001 / 1000000, 0, 0], [0, 0, 0]])
   \<and> 1 / 10 ^ 10 < \<bar>(1::real) - 1000001 / 1000000\<bar>"
  by (simp add: validate_inputs_def is_3x3_def allclose_def transpose_m_def ncols_def column_def
        upt_3 isclose_def rtol_def)

section \<open>Portfolio statistics\<close>

lemma portfolio_stats_shapes:
  assumes "length mu = length w" "is_matrix cov" "length cov = length w" "ncols cov = length w"
  shows "portfolio_stats w mu cov rf =
     Inr \<lparr>weights = w, expected_return = dot w mu, volatility = np_sqrt (quad_form w cov),
          sharpe_ratio = (if fv_le (np_sqrt (quad_form w cov)) (Fin 0) then NInf
                          else fv_div (dot w mu - rf) (np_sqrt (quad_form w cov)))\<rparr>"
  using assms
  by (simp add: portfolio_stats_def bind_err_def matmul_vv_def matmul_vm_def quad_form_def Let_def)

lemma portfolio_stats_error:
  "\<not> (length mu = length w \<and> is_matrix cov \<and> length cov = length w \<and> ncols cov = length w)
   \<Longrightarrow> portfolio_stats w mu cov rf = Inl MatmulShapeError"
  by (auto simp add: portfolio_stats_def bind_err_def matmul_vv_def matmul_vm_def Let_def)

text \<open>
  Where the quadratic form is not negative the volatility is its square root, which is
  what the clamped formula gives too.
\<close>

lemma portfolio_stats_volatility_psd:
  assumes "portfolio_stats w mu cov rf = Inr r" "0 \<le> quad_form w cov"
  shows "volatility r = Fin (sqrt (max (quad_form w cov) 0))"
proof (cases "length mu = length w \<and> is_matrix cov \<and> length cov = length w \<and> ncols cov = length w")
  case True
  then show ?thesis
    using assms by (auto simp add: portfolio_stats_shapes np_sqrt_def max_def)
next
  case False
  from portfolio_stats_error [OF this] assms show ?thesis by simp
qed

text \<open>
  C1. The source takes \<^verbatim>\<open>np.sqrt\<close> of the quadratic form with no clamp. On the weights
  (1, 0, 0) and the symmetric matrix diag(-1, 1, 1) the quadratic form is -1: the volatility
  is NaN, not \<open>sqrt (max (-1) 0) = 0\<close>, it is not at least 0, and the Sharpe ratio is NaN.
\<close>

theorem portfolio_stats_negative_variance:
  "portfolio_stats [1, 0, 0] [0, 0, 0] [[-1, 0, 0], [0, 1, 0], [0, 0, 1]] 0
     = Inr \<lparr>weights = [1, 0, 0], expected_return = 0, volatility = NaN, sharpe_ratio = NaN\<rparr>
   \<and> quad_form [1, 0, 0] [[-1, 0, 0], [0, 1, 0], [0, 0, 1]] = - 1
   \<and> NaN \<noteq> Fin (sqrt (max (- 1) 0))
   \<and> \<not> fv_le (Fin 0) NaN"
  by (simp add: portfolio_stats_def bind_err_def matmul_vv_def matmul_vm_def Let_def
       is_matrix_def ncols_def column_def dot_def upt_3 np_sqrt_def quad_form_def)

text \<open>
  Whenever \<^verbatim>\<open>portfolio_stats\<close> returns, a positive volatility gives the Sharpe ratio
  \<open>(expected_return - rf) / volatility\<close>, and a zero volatility gives the sentinel
  \<open>-\<infinity>\<close>, which is strictly below every finite Sharpe ratio.
\<close>

lemma sharpe_ratio_cases:
  assumes "portfolio_stats w mu cov rf = Inr r"
  shows "(\<forall>v. volatility r = Fin v \<and> 0 < v
            \<longrightarrow> sharpe_ratio r = Fin ((expected_return r - rf) / v))
       \<and> (volatility r = Fin 0
            \<longrightarrow> sharpe_ratio r = NInf \<and> (\<forall>x. fv_less (sharpe_ratio r) (Fin x)))"
  using assms
  by (auto simp add: portfolio_stats_def bind_err_def Let_def np_div_def
      split: sum.splits if_splits)

lemma sharpe_ratio_cases_examples:
  "portfolio_stats [1, 0, 0] [3, 0, 0] [[1, 0, 0], [0, 1, 0], [0, 0, 1]] 1
     = Inr \<lparr>weights = [1, 0, 0], expected_return = 3, volatility = Fin 1, sharpe_ratio = Fin 2\<rparr>
   \<and> Fin 2 = Fin ((3 - 1) / (1::real))
   \<and> portfolio_stats [1, 0, 0] [3, 0, 0] [[0, 0, 0], [0, 1, 0], [0, 0, 1]] 1
     = Inr \<lparr>weights = [1, 0, 0], expected_return = 3, volatility = Fin 0, sharpe_ratio = NInf\<rparr>
   \<and> fv_less NInf (Fin 2)"
proof -
  have a: "portfolio_stats [1, 0, 0] [3, 0, 0] [[1, 0, 0], [0, 1, 0], [0, 0, 1]] 1
     = Inr \<lparr>weights = [1, 0, 0], expected_return = 3, volatility = Fin 1, sharpe_ratio = Fin 2\<rparr>"
    by (simp add: portfolio_stats_def bind_err_def matmul_vv_def matmul_vm_def Let_def
         is_matrix_def ncols_def column_def dot_def upt_3 np_sqrt_def np_div_def)
  have b: "portfolio_stats [1, 0, 0] [3, 0, 0] [[0, 0, 0], [0, 1, 0], [0, 0, 1]] 1
     = Inr \<lparr>weights = [1, 0, 0], expected_return = 3, volatility = Fin 0, sharpe_ratio = NInf\<rparr>"
    by (simp add: portfolio_stats_def bind_err_def matmul_vv_def matmul_vm_def Let_def
         is_matrix_def ncols_def column_def dot_def upt_3 np_sqrt_def np_div_def)
  from sharpe_ratio_cases [OF a] sharpe_ratio_cases [OF b] a b show ?thesis by simp
qed

text \<open>
  C8. The source tests \<^verbatim>\<open>vol <= 0\<close>, which is false for a NaN volatility, so the
  else-branch divides by NaN: the Sharpe ratio is NaN, not the sentinel \<open>-\<infinity>\<close> that the
  specification gives to every volatility that is not above zero. The NaN volatility is
  the one the missing clamp lets through (C1). On the weights (1, 0, 0), the returns
  (3, 0, 0), the covariance diag(-1, 1, 1) and \<open>rf = 1\<close> the volatility is NaN, which is
  not above zero, and the Sharpe ratio is NaN, which is not \<open>-\<infinity>\<close>.
\<close>

theorem sharpe_ratio_nan_volatility:
  "portfolio_stats [1, 0, 0] [3, 0, 0] [[- 1, 0, 0], [0, 1, 0], [0, 0, 1]] 1
     = Inr \<lparr>weights = [1, 0, 0], expected_return = 3, volatility = NaN, sharpe_ratio = NaN\<rparr>
   \<and> \<not> fv_less (Fin 0) NaN
   \<and> NaN \<noteq> NInf"
  by (simp add: portfolio_stats_def bind_err_def matmul_vv_def matmul_vm_def Let_def
       is_matrix_def ncols_def column_def dot_def upt_3 np_sqrt_def)

section \<open>The analytical solver\<close>

lemma excess_returns_exact:
  assumes "length mu = 3"
  shows "excess_returns exact_numerics mu rf = map (\<lambda>m. m - rf) mu"
proof -
  from assms obtain m1 m2 m3 where "mu = [m1, m2, m3]" unfolding length_3_conv by blast
  then show ?thesis by (simp add: excess_returns_def exact_numerics_def numeral_3_eq_3)
qed

lemma matmul_mv_3x3:
  "matmul_mv [[a, b, c], [d, e, f], [g, h, i]] [x, y, z]
   = Inr [a * x + b * y + c * z, d * x + e * y + f * z, g * x + h * y + i * z]"
  by (simp add: matmul_mv_def is_matrix_def ncols_def dot_def)

lemma cramer_row:
  assumes "det3 a b c d e f g h i \<noteq> 0"
  shows "a * det3 p b c q e f r h i / det3 a b c d e f g h i
       + b * det3 a p c d q f g r i / det3 a b c d e f g h i
       + c * det3 a b p d e q g h r / det3 a b c d e f g h i = p"
    and "d * det3 p b c q e f r h i / det3 a b c d e f g h i
       + e * det3 a p c d q f g r i / det3 a b c d e f g h i
       + f * det3 a b p d e q g h r / det3 a b c d e f g h i = q"
    and "g * det3 p b c q e f r h i / det3 a b c d e f g h i
       + h * det3 a p c d q f g r i / det3 a b c d e f g h i
       + i * det3 a b p d e q g h r / det3 a b c d e f g h i = r"
proof -
  let ?D = "det3 a b c d e f g h i"
  have 1: "a * det3 p b c q e f r h i + b * det3 a p c d q f g r i + c * det3 a b p d e q g h r = p * ?D"
    by (simp add: det3_def algebra_simps)
  have 2: "d * det3 p b c q e f r h i + e * det3 a p c d q f g r i + f * det3 a b p d e q g h r = q * ?D"
    by (simp add: det3_def algebra_simps)
  have 3: "g * det3 p b c q e f r h i + h * det3 a p c d q f g r i + i * det3 a b p d e q g h r = r * ?D"
    by (simp add: det3_def algebra_simps)
  have k: "x / ?D + y / ?D + z / ?D = (x + y + z) / ?D" for x y z
    by (simp add: add_divide_distrib)
  show "a * det3 p b c q e f r h i / ?D + b * det3 a p c d q f g r i / ?D
       + c * det3 a b p d e q g h r / ?D = p"
    unfolding k 1 using assms by simp
  show "d * det3 p b c q e f r h i / ?D + e * det3 a p c d q f g r i / ?D
       + f * det3 a b p d e q g h r / ?D = q"
    unfolding k 2 using assms by simp
  show "g * det3 p b c q e f r h i / ?D + h * det3 a p c d q f g r i / ?D
       + i * det3 a b p d e q g h r / ?D = r"
    unfolding k 3 using assms by simp
qed

text \<open>What the exact solver returns is a vector of three that solves the system.\<close>

lemma exact_solve_Inr:
  assumes "exact_solve cov v = Inr raw"
  shows "length raw = 3 \<and> matmul_mv cov raw = Inr v"
  using assms
proof (induction cov v rule: exact_solve.induct)
  case (1 a b c d e f g h i p q r)
  then have D: "det3 a b c d e f g h i \<noteq> 0"
    and raw: "raw = [det3 p b c q e f r h i / det3 a b c d e f g h i,
                     det3 a p c d q f g r i / det3 a b c d e f g h i,
                     det3 a b p d e q g h r / det3 a b c d e f g h i]"
    by (auto simp add: Let_def split: if_splits)
  show ?case unfolding raw by (simp add: matmul_mv_3x3 cramer_row [OF D])
qed simp_all

lemma exact_solve_error_only: "exact_solve cov v = Inl e \<Longrightarrow> e = LinAlgError"
  by (induction cov v rule: exact_solve.induct) (auto simp add: Let_def split: if_splits)

lemma exact_contract_error:
  "\<forall>e. np_solve exact_numerics cov v = Inl e \<longrightarrow> e = LinAlgError"
  by (simp add: exact_numerics_def exact_solve_error_only)

lemma exact_contract_length:
  "\<forall>raw. np_solve exact_numerics cov v = Inr raw \<longrightarrow> length raw = 3"
  by (simp add: exact_numerics_def exact_solve_Inr)

lemma sum_list_div: "sum_list (map (\<lambda>x. x / d) xs) = sum_list xs / (d::real)"
  by (induction xs) (simp_all add: add_divide_distrib)

lemma dot_ones_3:
  assumes "length raw = 3"
  shows "dot (replicate 3 1) raw = sum_list raw"
proof -
  from assms obtain x y z where "raw = [x, y, z]" unfolding length_3_conv by blast
  then show ?thesis by (simp add: dot_def numeral_3_eq_3)
qed

lemma validate_inputs_valid:
  "validate_inputs mu cov = Inr (mu, cov)
   \<longleftrightarrow> length mu = 3 \<and> is_3x3 cov \<and> allclose cov (transpose_m cov) (1 / 10 ^ 10)"
  by (simp add: validate_inputs_def)

lemma validate_inputs_cases:
  "validate_inputs mu cov = Inr (mu, cov) \<or> (\<exists>e. validate_inputs mu cov = Inl e)"
  by (simp add: validate_inputs_def)

lemma portfolio_stats_weights:
  "portfolio_stats w mu cov rf = Inr r \<Longrightarrow> weights r = w"
  by (auto simp add: portfolio_stats_def bind_err_def Let_def split: sum.splits)

lemma portfolio_stats_3:
  assumes "length mu = 3" "is_3x3 cov" "length w = 3"
  shows "\<exists>r. portfolio_stats w mu cov rf = Inr r \<and> weights r = w"
proof -
  have sh: "length mu = length w" using assms by simp
  from is_3x3_shapes [OF assms(2)] assms(3)
  have "is_matrix cov" "length cov = length w" "ncols cov = length w" by simp_all
  from portfolio_stats_shapes [OF sh this, of rf] show ?thesis by simp
qed

text \<open>The solver on validated inputs, after the validation step.\<close>

lemma optimize_sharpe_unconstrained_valid:
  assumes "validate_inputs mu cov = Inr (mu, cov)"
  shows "optimize_sharpe_unconstrained nm mu cov rf =
     (case np_solve nm cov (excess_returns nm mu rf) of
        Inl LinAlgError \<Rightarrow> Inl SingularCovarianceError
      | Inl exc \<Rightarrow> Inl exc
      | Inr raw \<Rightarrow>
          bind_err (matmul_vv_np nm (replicate 3 1) raw) (\<lambda>denom.
            if \<bar>denom\<bar> < degenerate_eps then Inl DegenerateNormalizationError
            else portfolio_stats (map (\<lambda>x. rnd nm (x / denom)) raw) mu cov rf))"
  unfolding optimize_sharpe_unconstrained_def assms bind_err_def sum.case prod.case Let_def
    excess_returns_def ..

lemma optimize_sharpe_unconstrained_solved:
  assumes v: "validate_inputs mu cov = Inr (mu, cov)"
    and raw: "np_solve nm cov (excess_returns nm mu rf) = Inr raw" "length raw = 3"
  shows "optimize_sharpe_unconstrained nm mu cov rf =
     (if \<bar>np_dot nm (replicate 3 1) raw\<bar> < degenerate_eps
      then Inl DegenerateNormalizationError
      else portfolio_stats (map (\<lambda>x. rnd nm (x / np_dot nm (replicate 3 1) raw)) raw) mu cov rf)"
  by (simp add: optimize_sharpe_unconstrained_valid [OF v] raw matmul_vv_np_def bind_err_def)

text \<open>
  C6. On validated inputs, whatever the library's solver and dot product compute
  (the solver either raising LinAlgError or returning a vector of three): the analytical
  solver fails with SingularCovarianceError when the linear solve raises, fails with
  DegenerateNormalizationError when the computed denominator \<^verbatim>\<open>ones @ raw\<close> is below
  1e-14 in absolute value, and otherwise returns a result whose weights are \<open>raw\<close> divided
  by the denominator. It fails in no other way, and a failure is the value of the call.
\<close>

theorem unconstrained_failures:
  assumes v: "validate_inputs mu cov = Inr (mu, cov)"
    and e: "\<forall>e. np_solve nm cov (excess_returns nm mu rf) = Inl e \<longrightarrow> e = LinAlgError"
    and l: "\<forall>raw. np_solve nm cov (excess_returns nm mu rf) = Inr raw \<longrightarrow> length raw = 3"
  shows "(np_solve nm cov (excess_returns nm mu rf) = Inl LinAlgError
            \<longrightarrow> optimize_sharpe_unconstrained nm mu cov rf = Inl SingularCovarianceError)
       \<and> (\<forall>raw. np_solve nm cov (excess_returns nm mu rf) = Inr raw \<longrightarrow>
            (\<bar>np_dot nm (replicate 3 1) raw\<bar> < degenerate_eps
               \<longrightarrow> optimize_sharpe_unconstrained nm mu cov rf = Inl DegenerateNormalizationError)
          \<and> (\<not> \<bar>np_dot nm (replicate 3 1) raw\<bar> < degenerate_eps
               \<longrightarrow> (\<exists>r. optimize_sharpe_unconstrained nm mu cov rf = Inr r
                      \<and> weights r = map (\<lambda>x. rnd nm (x / np_dot nm (replicate 3 1) raw)) raw)))
       \<and> (\<forall>err. optimize_sharpe_unconstrained nm mu cov rf = Inl err
            \<longrightarrow> err = SingularCovarianceError \<or> err = DegenerateNormalizationError)"
proof -
  let ?opt = "optimize_sharpe_unconstrained nm mu cov rf"
  let ?s = "np_solve nm cov (excess_returns nm mu rf)"
  from v have mu: "length mu = 3" and c: "is_3x3 cov" by (simp_all add: validate_inputs_valid)
  have a: "?opt = Inl SingularCovarianceError" if "?s = Inl LinAlgError"
    using that by (simp add: optimize_sharpe_unconstrained_valid [OF v])
  have b: "(\<bar>np_dot nm (replicate 3 1) raw\<bar> < degenerate_eps
               \<longrightarrow> ?opt = Inl DegenerateNormalizationError)
          \<and> (\<not> \<bar>np_dot nm (replicate 3 1) raw\<bar> < degenerate_eps
               \<longrightarrow> (\<exists>r. ?opt = Inr r
                      \<and> weights r = map (\<lambda>x. rnd nm (x / np_dot nm (replicate 3 1) raw)) raw))"
    if raw: "?s = Inr raw" for raw
  proof -
    have len: "length raw = 3" using l raw by blast
    note eq = optimize_sharpe_unconstrained_solved [OF v raw len]
    have "length (map (\<lambda>x. rnd nm (x / np_dot nm (replicate 3 1) raw)) raw) = 3"
      using len by simp
    from portfolio_stats_3 [OF mu c this, of rf] show ?thesis
      by (auto simp add: eq)
  qed
  have d: "err = SingularCovarianceError \<or> err = DegenerateNormalizationError"
    if err: "?opt = Inl err" for err
  proof (cases ?s)
    case (Inl x)
    with e have "?s = Inl LinAlgError" by simp
    from a [OF this] err show ?thesis by simp
  next
    case (Inr raw)
    from b [OF Inr] err show ?thesis
      by (cases "\<bar>np_dot nm (replicate 3 1) raw\<bar> < degenerate_eps") auto
  qed
  from a b d show ?thesis by blast
qed

lemma valid_id: "validate_inputs mu [[1, 0, 0], [0, 1, 0], [0, 0, 1]]
    = (if length mu \<noteq> 3 then Inl ShapeError_mu else Inr (mu, [[1, 0, 0], [0, 1, 0], [0, 0, 1]]))"
  by (simp add: validate_inputs_def is_3x3_def allclose_def transpose_m_def ncols_def column_def
        upt_3 isclose_def rtol_def)

lemma valid_zero: "validate_inputs [1, 2, 3] [[0, 0, 0], [0, 0, 0], [0, 0, 0]]
    = Inr ([1, 2, 3], [[0, 0, 0], [0, 0, 0], [0, 0, 0]])"
  by (simp add: validate_inputs_def is_3x3_def allclose_def transpose_m_def ncols_def column_def
        upt_3 isclose_def rtol_def)

lemma exact_solve_identity:
  "exact_solve [[1, 0, 0], [0, 1, 0], [0, 0, 1]] [p, q, r] = Inr [p, q, r]"
  by (simp add: det3_def Let_def)

theorem unconstrained_failures_witness:
  "optimize_sharpe_unconstrained exact_numerics [1, 2, 3] [[0, 0, 0], [0, 0, 0], [0, 0, 0]] 0
     = Inl SingularCovarianceError
   \<and> optimize_sharpe_unconstrained exact_numerics [1, - 1, 0] [[1, 0, 0], [0, 1, 0], [0, 0, 1]] 0
     = Inl DegenerateNormalizationError
   \<and> (\<exists>r. optimize_sharpe_unconstrained exact_numerics [1, 2, 3]
             [[1, 0, 0], [0, 1, 0], [0, 0, 1]] 0 = Inr r \<and> weights r = [1 / 6, 1 / 3, 1 / 2])"
proof -
  have v1: "validate_inputs [1, - 1, 0] [[1, 0, 0], [0, 1, 0], [0, 0, 1]]
            = Inr ([1, - 1, 0], [[1, 0, 0], [0, 1, 0], [0, 0, 1]])"
    and v2: "validate_inputs [1, 2, 3] [[1, 0, 0], [0, 1, 0], [0, 0, 1]]
            = Inr ([1, 2, 3], [[1, 0, 0], [0, 1, 0], [0, 0, 1]])"
    by (simp_all add: valid_id)
  have x1: "excess_returns exact_numerics [1, - 1, 0] 0 = [1, - 1, 0]"
    and x2: "excess_returns exact_numerics [1, 2, 3] 0 = [1, 2, 3]"
    by (simp_all add: excess_returns_exact)
  have s0: "np_solve exact_numerics [[0, 0, 0], [0, 0, 0], [0, 0, 0]]
              (excess_returns exact_numerics [1, 2, 3] 0) = Inl LinAlgError"
    unfolding x2 by (simp add: exact_numerics_def det3_def Let_def)
  have s1: "np_solve exact_numerics [[1, 0, 0], [0, 1, 0], [0, 0, 1]]
              (excess_returns exact_numerics [1, - 1, 0] 0) = Inr [1, - 1, 0]"
    unfolding x1 by (simp add: exact_numerics_def det3_def Let_def)
  have s2: "np_solve exact_numerics [[1, 0, 0], [0, 1, 0], [0, 0, 1]]
              (excess_returns exact_numerics [1, 2, 3] 0) = Inr [1, 2, 3]"
    unfolding x2 by (simp add: exact_numerics_def det3_def Let_def)
  have d1: "np_dot exact_numerics (replicate 3 1) [1, - 1, 0] = 0"
    and d2: "np_dot exact_numerics (replicate 3 1) [1, 2, 3] = 6"
    by (simp_all add: exact_numerics_def dot_def numeral_3_eq_3)
  have r: "rnd exact_numerics = (\<lambda>x. x)" by (simp add: exact_numerics_def)
  from unconstrained_failures [OF valid_zero exact_contract_error exact_contract_length] s0
  have "optimize_sharpe_unconstrained exact_numerics [1, 2, 3] [[0, 0, 0], [0, 0, 0], [0, 0, 0]] 0
     = Inl SingularCovarianceError" by blast
  moreover
  from unconstrained_failures [OF v1 exact_contract_error exact_contract_length, of 0] s1
  have "\<bar>np_dot exact_numerics (replicate 3 1) [1, - 1, 0]\<bar> < degenerate_eps
        \<longrightarrow> optimize_sharpe_unconstrained exact_numerics [1, - 1, 0]
              [[1, 0, 0], [0, 1, 0], [0, 0, 1]] 0 = Inl DegenerateNormalizationError"
    by blast
  then have "optimize_sharpe_unconstrained exact_numerics [1, - 1, 0]
      [[1, 0, 0], [0, 1, 0], [0, 0, 1]] 0 = Inl DegenerateNormalizationError"
    by (simp add: d1 degenerate_eps_def)
  moreover
  from unconstrained_failures [OF v2 exact_contract_error exact_contract_length, of 0] s2
  have "\<not> \<bar>np_dot exact_numerics (replicate 3 1) [1, 2, 3]\<bar> < degenerate_eps
        \<longrightarrow> (\<exists>r. optimize_sharpe_unconstrained exact_numerics [1, 2, 3]
                    [[1, 0, 0], [0, 1, 0], [0, 0, 1]] 0 = Inr r
               \<and> weights r = map (\<lambda>x. rnd exact_numerics
                      (x / np_dot exact_numerics (replicate 3 1) [1, 2, 3])) [1, 2, 3])"
    by blast
  then have "\<exists>r. optimize_sharpe_unconstrained exact_numerics [1, 2, 3]
             [[1, 0, 0], [0, 1, 0], [0, 0, 1]] 0 = Inr r \<and> weights r = [1 / 6, 1 / 3, 1 / 2]"
    by (simp add: d2 r degenerate_eps_def)
  ultimately show ?thesis by blast
qed

text \<open>
  C5, as the code has it. In exact arithmetic: whenever the analytical solver returns a
  result, the linear solve returned a vector \<open>raw\<close> with \<open>cov \<cdot> raw = mu - rf \<cdot> 1\<close>, the
  returned weights are \<open>raw\<close> divided by the sum of its entries, and the weights sum to 1.
\<close>

theorem unconstrained_weights_sum_to_one:
  assumes "optimize_sharpe_unconstrained exact_numerics mu cov rf = Inr r"
  shows "\<exists>raw. exact_solve cov (map (\<lambda>m. m - rf) mu) = Inr raw
             \<and> matmul_mv cov raw = Inr (map (\<lambda>m. m - rf) mu)
             \<and> weights r = map (\<lambda>x. x / sum_list raw) raw
             \<and> sum_list (weights r) = 1"
proof -
  have v: "validate_inputs mu cov = Inr (mu, cov)"
    using validate_inputs_cases [of mu cov] assms
    by (auto simp add: optimize_sharpe_unconstrained_def bind_err_def)
  then have mu: "length mu = 3" by (simp add: validate_inputs_valid)
  let ?v = "map (\<lambda>m. m - rf) mu"
  have ex: "excess_returns exact_numerics mu rf = ?v" by (rule excess_returns_exact [OF mu])
  have sv: "np_solve exact_numerics cov (excess_returns exact_numerics mu rf) = exact_solve cov ?v"
    by (simp add: ex) (simp add: exact_numerics_def)
  from assms obtain raw where raw: "exact_solve cov ?v = Inr raw"
    unfolding optimize_sharpe_unconstrained_valid [OF v] sv
    by (cases "exact_solve cov ?v") (auto split: error.splits)
  from exact_solve_Inr [OF raw] have len: "length raw = 3" and mv: "matmul_mv cov raw = Inr ?v"
    by simp_all
  have d: "np_dot exact_numerics (replicate 3 1) raw = sum_list raw"
    by (simp add: exact_numerics_def dot_ones_3 [OF len])
  have r: "rnd exact_numerics = (\<lambda>x. x)" by (simp add: exact_numerics_def)
  note eq = optimize_sharpe_unconstrained_solved [OF v _ len, of exact_numerics rf,
      unfolded sv, OF raw, unfolded d r]
  from assms eq have big: "\<not> \<bar>sum_list raw\<bar> < degenerate_eps"
    and ps: "portfolio_stats (map (\<lambda>x. x / sum_list raw) raw) mu cov rf = Inr r"
    by (auto split: if_splits)
  have "0 < degenerate_eps" by (simp add: degenerate_eps_def)
  with big have nz: "sum_list raw \<noteq> 0" by auto
  have w: "weights r = map (\<lambda>x. x / sum_list raw) raw"
    by (rule portfolio_stats_weights [OF ps])
  have "sum_list (weights r) = 1"
    unfolding w sum_list_div using nz by simp
  with raw mv w show ?thesis by blast
qed

lemma opt_ex:
  "optimize_sharpe_unconstrained exact_numerics [1, 2, 3] [[1, 0, 0], [0, 1, 0], [0, 0, 1]] 0
   = Inr \<lparr>weights = [1 / 6, 1 / 3, 1 / 2], expected_return = 7 / 3,
          volatility = Fin (sqrt (7 / 18)), sharpe_ratio = Fin (7 / 3 / sqrt (7 / 18))\<rparr>"
proof -
  have v: "validate_inputs [1, 2, 3] [[1, 0, 0], [0, 1, 0], [0, 0, 1]]
            = Inr ([1, 2, 3], [[1, 0, 0], [0, 1, 0], [0, 0, 1]])"
    by (simp add: valid_id)
  have x: "excess_returns exact_numerics [1, 2, 3] 0 = [1, 2, 3]"
    by (simp add: excess_returns_exact)
  have s: "np_solve exact_numerics [[1, 0, 0], [0, 1, 0], [0, 0, 1]]
             (excess_returns exact_numerics [1, 2, 3] 0) = Inr [1, 2, 3]"
    unfolding x by (simp add: exact_numerics_def det3_def Let_def)
  have d: "np_dot exact_numerics (replicate 3 1) [1, 2, 3] = 6"
    by (simp add: exact_numerics_def dot_def numeral_3_eq_3)
  have r: "rnd exact_numerics = (\<lambda>x. x)" by (simp add: exact_numerics_def)
  show ?thesis
    unfolding optimize_sharpe_unconstrained_solved [OF v s, simplified] d r
    by (simp add: degenerate_eps_def portfolio_stats_def bind_err_def matmul_vv_def matmul_vm_def
        is_matrix_def ncols_def column_def dot_def upt_3 Let_def np_sqrt_def np_div_def)
qed

theorem unconstrained_weights_sum_to_one_witness:
  "optimize_sharpe_unconstrained exact_numerics [1, 2, 3] [[1, 0, 0], [0, 1, 0], [0, 0, 1]] 0
     = Inr \<lparr>weights = [1 / 6, 1 / 3, 1 / 2], expected_return = 7 / 3,
            volatility = Fin (sqrt (7 / 18)), sharpe_ratio = Fin (7 / 3 / sqrt (7 / 18))\<rparr>
   \<and> exact_solve [[1, 0, 0], [0, 1, 0], [0, 0, 1]] [1, 2, 3] = Inr [1, 2, 3]
   \<and> sum_list [1 / 6, 1 / 3, 1 / 2 :: real] = 1"
  using unconstrained_weights_sum_to_one [OF opt_ex] opt_ex
  by (simp add: det3_def Let_def)

subsection \<open>Rounding to doubles\<close>

lemma expo_eq:
  assumes "2 powi k \<le> \<bar>x\<bar>" "\<bar>x\<bar> < 2 powi (k + 1)"
  shows "expo x = k"
proof -
  have "(0::real) < 2 powi k" by simp
  with assms(1) have pos: "0 < \<bar>x\<bar>" by linarith
  have p1: "(2::real) powr real_of_int k = 2 powi k"
    by (rule powr_real_of_int') simp_all
  have p2: "(2::real) powr real_of_int (k + 1) = 2 powi (k + 1)"
    by (rule powr_real_of_int') simp_all
  have "\<lfloor>log 2 \<bar>x\<bar>\<rfloor> = k"
    unfolding floor_log_eq_powr_iff [OF pos, of 2 k, simplified] p1
    using assms p2 by simp
  then show ?thesis by (simp add: expo_def)
qed

text \<open>
  How to compute \<open>fl x\<close>: scale \<open>x\<close> by the power of two that brings it into
  \<open>[2^52, 2^53)\<close>, round to the nearest integer, scale back.
\<close>

lemma fl_eval:
  assumes "2 ^ 52 \<le> \<bar>x\<bar> * 2 ^ n" "\<bar>x\<bar> * 2 ^ n < 2 ^ 53"
  shows "fl x = of_int (round_ties_even (x * 2 ^ n)) / 2 ^ n"
proof -
  have p: "(2::real) powi (52 - int n) = 2 ^ 52 / 2 ^ n"
    by (simp add: power_int_diff)
  have q: "(2::real) powi (52 - int n + 1) = 2 ^ 53 / 2 ^ n"
    by (simp add: power_int_diff power_int_add)
  have a: "2 powi (52 - int n) \<le> \<bar>x\<bar>"
    unfolding p using assms(1) by (simp add: field_simps)
  have b: "\<bar>x\<bar> < 2 powi (52 - int n + 1)"
    unfolding q using assms(2) by (simp add: field_simps)
  have e: "expo x = 52 - int n" by (rule expo_eq [OF a b])
  have "(0::real) < 2 powi (52 - int n)" by simp
  with a have "0 < \<bar>x\<bar>" by linarith
  then have nz: "x \<noteq> 0" by simp
  have s: "(2::real) powi (expo x - 52) = 1 / 2 ^ n"
    unfolding e by (simp add: power_int_minus field_simps)
  show ?thesis unfolding fl_def s using nz by simp
qed

lemma fl_quotients:
  "fl (7000000000000000 / 3) = 4666666666666667 / 2"
  "fl (1 / 3) = 6004799503160661 / 2 ^ 54"
  "fl (- (6999999999999998 / 3)) = - (4666666666666665 / 2)"
proof -
  show "fl (7000000000000000 / 3) = 4666666666666667 / 2"
    using fl_eval [of "7000000000000000 / 3" 1] by (simp add: round_ties_even_def)
  show "fl (1 / 3) = 6004799503160661 / 2 ^ 54"
    using fl_eval [of "1 / 3" 54] by (simp add: round_ties_even_def)
  have r: "round_ties_even (- (13999999999999996 / 3)) = - 4666666666666665"
    by (simp add: round_ties_even_def Let_def)
  have a1: "(2::real) ^ 52 \<le> \<bar>- (6999999999999998 / 3)\<bar> * 2 ^ 1" by simp
  have a2: "\<bar>- (6999999999999998 / 3 :: real)\<bar> * 2 ^ 1 < 2 ^ 53" by simp
  show "fl (- (6999999999999998 / 3)) = - (4666666666666665 / 2)"
    using fl_eval [OF a1 a2] r by simp
qed

lemma fl_doubles:
  "fl 0 = 0" "fl 1 = 1" "fl 7000000000000000 = 7000000000000000"
  "fl (- 6999999999999998) = - 6999999999999998"
  using fl_eval [of 7000000000000000 0] fl_eval [of "- 6999999999999998" 0] fl_eval [of 1 52]
  by (simp_all add: round_ties_even_def fl_def)

text \<open>
  The specification also promises the sum within 1e-9 of 1 in floating point. With the
  returns (7e15, 1, -6999999999999998), the identity covariance and \<open>rf = 0\<close>, the solve
  returns the returns themselves and the denominator is 3, both without any rounding; the
  three quotients round to 2333333333333333.5, 0.333... and -2333333333333332.5, and the
  returned weights sum to about 1.33.
\<close>

theorem unconstrained_weights_rounded_sum:
  "\<not> isl (optimize_sharpe_unconstrained rounded_elementwise
            [7000000000000000, 1, - 6999999999999998] [[1, 0, 0], [0, 1, 0], [0, 0, 1]] 0)
   \<and> weights (projr (optimize_sharpe_unconstrained rounded_elementwise
            [7000000000000000, 1, - 6999999999999998] [[1, 0, 0], [0, 1, 0], [0, 0, 1]] 0))
       = [4666666666666667 / 2, 6004799503160661 / 2 ^ 54, - 4666666666666665 / 2]
   \<and> 1 / 10 ^ 9 < \<bar>sum_list (weights (projr (optimize_sharpe_unconstrained rounded_elementwise
            [7000000000000000, 1, - 6999999999999998] [[1, 0, 0], [0, 1, 0], [0, 0, 1]] 0))) - 1\<bar>"
proof -
  let ?mu = "[7000000000000000, 1, - 6999999999999998] :: real list"
  let ?I = "[[1, 0, 0], [0, 1, 0], [0, 0, 1]] :: real list list"
  let ?w = "[4666666666666667 / 2, 6004799503160661 / 2 ^ 54, - 4666666666666665 / 2] :: real list"
  have v: "validate_inputs ?mu ?I = Inr (?mu, ?I)" by (simp add: valid_id)
  then have mu: "length ?mu = 3" and c: "is_3x3 ?I" by (simp_all add: validate_inputs_valid)
  have x: "excess_returns rounded_elementwise ?mu 0 = ?mu"
    by (simp add: excess_returns_def rounded_elementwise_def numeral_3_eq_3 fl_doubles)
  have s: "np_solve rounded_elementwise ?I (excess_returns rounded_elementwise ?mu 0) = Inr ?mu"
    unfolding x by (simp add: rounded_elementwise_def det3_def Let_def)
  have d: "np_dot rounded_elementwise (replicate 3 1) ?mu = 3"
    by (simp add: rounded_elementwise_def dot_def numeral_3_eq_3)
  have q: "map (\<lambda>x. rnd rounded_elementwise (x / 3)) ?mu = ?w"
    by (simp add: rounded_elementwise_def fl_quotients)
  have eq: "optimize_sharpe_unconstrained rounded_elementwise ?mu ?I 0
            = portfolio_stats ?w ?mu ?I 0"
    unfolding optimize_sharpe_unconstrained_solved [OF v s, simplified] d q
    by (simp add: degenerate_eps_def)
  from portfolio_stats_3 [OF mu c, of ?w 0]
  obtain r where r: "portfolio_stats ?w ?mu ?I 0 = Inr r" "weights r = ?w" by auto
  have "1 / 10 ^ 9 < \<bar>sum_list ?w - 1\<bar>" by simp
  then show ?thesis unfolding eq r(1) using r(2) by simp
qed

section \<open>The grid search\<close>

lemma inner_loop_eq:
  "inner_loop mu cov rf w1 w2s best
   = evaluate_candidates mu cov rf (map (\<lambda>w2. (w1, w2, 1 - w1 - w2)) w2s) best"
proof (induction w2s arbitrary: best)
  case Nil
  show ?case by simp
next
  case (Cons w2 w2s)
  show ?case by (simp add: Let_def Cons.IH)
qed

lemma evaluate_candidates_append:
  "evaluate_candidates mu cov rf (xs @ ys) best
   = bind_err (evaluate_candidates mu cov rf xs best) (\<lambda>b. evaluate_candidates mu cov rf ys b)"
proof (induction xs arbitrary: best)
  case Nil
  show ?case by (simp add: bind_err_def)
next
  case (Cons c xs)
  obtain w1 w2 w3 where c: "c = (w1, w2, w3)" by (cases c)
  show ?case
    by (cases "portfolio_stats [w1, w2, w3] mu cov rf") (simp_all add: c bind_err_def Cons.IH)
qed

lemma outer_loop_eq:
  "outer_loop mu cov rf n grid best
   = evaluate_candidates mu cov rf
       (concat (map (\<lambda>w1. map (\<lambda>w2. (w1, w2, 1 - w1 - w2))
          (linspace 0 (1 - w1) (nat (max 2 (py_round ((1 - w1) * of_int (n - 1)) + 1))))) grid))
       best"
proof (induction grid arbitrary: best)
  case Nil
  show ?case by simp
next
  case (Cons w1 grid)
  show ?case
    by (simp add: Let_def inner_loop_eq evaluate_candidates_append Cons.IH bind_err_def
          split: sum.splits)
qed

lemma optimize_sharpe_long_only_eq:
  assumes "validate_inputs mu cov = Inr (mu, cov)"
  shows "optimize_sharpe_long_only mu cov rf n =
     (if n < 3 then Inl InvalidResolutionError
      else evaluate_candidates mu cov rf (spec_candidates n) (initial_best mu cov))"
  by (simp add: optimize_sharpe_long_only_def assms bind_err_def Let_def outer_loop_eq
        spec_candidates_def initial_best_def)

lemma length_linspace: "length (linspace a b n) = n"
  by (simp add: linspace_def)

lemma linspace_mem:
  assumes "x \<in> set (linspace a b n)" "a \<le> b"
  shows "a \<le> x \<and> x \<le> b"
proof (cases "n = 1")
  case True
  with assms show ?thesis by (simp add: linspace_def)
next
  case False
  with assms(1) obtain i where i: "i < n" and x: "x = a + real i * ((b - a) / real (n - 1))"
    by (auto simp add: linspace_def)
  from i False have n: "2 \<le> n" by simp
  have d: "0 \<le> b - a" using assms(2) by simp
  have r: "real i / real (n - 1) \<le> 1" using i n by simp
  have "real i * ((b - a) / real (n - 1)) = (real i / real (n - 1)) * (b - a)" by simp
  also have "\<dots> \<le> 1 * (b - a)" by (rule mult_right_mono [OF r d])
  finally have u: "real i * ((b - a) / real (n - 1)) \<le> b - a" by simp
  have l: "0 \<le> real i * ((b - a) / real (n - 1))" using d by simp
  from u l show ?thesis unfolding x by simp
qed

lemma spec_candidates_simplex:
  assumes "(w1, w2, w3) \<in> set (spec_candidates n)"
  shows "0 \<le> w1 \<and> 0 \<le> w2 \<and> w1 + w2 + w3 = 1"
proof -
  from assms have a: "w1 \<in> set (linspace 0 1 (nat n))"
    and b: "w2 \<in> set (linspace 0 (1 - w1) (nat (max 2 (py_round ((1 - w1) * of_int (n - 1)) + 1))))"
    and c: "w3 = 1 - w1 - w2"
    by (auto simp add: spec_candidates_def)
  from linspace_mem [OF a] have w1: "0 \<le> w1" "w1 \<le> 1" by simp_all
  from linspace_mem [OF b] w1 have "0 \<le> w2" by simp
  with w1 c show ?thesis by simp
qed

lemma fv_less_trans: "fv_less a b \<Longrightarrow> fv_less b c \<Longrightarrow> fv_less a c"
  by (cases a; cases b; cases c) auto

lemma fv_less_le_trans: "fv_less a b \<Longrightarrow> fv_le b c \<Longrightarrow> fv_less a c"
  by (cases a; cases b; cases c) auto

lemma fv_less_not_NaN: "fv_less a b \<Longrightarrow> a \<noteq> NaN \<and> b \<noteq> NaN"
  by (cases a; cases b) auto

lemma fv_less_irrefl: "\<not> fv_less a a"
  by (cases a) auto

lemma fv_not_less_le: "a \<noteq> NaN \<Longrightarrow> b \<noteq> NaN \<Longrightarrow> \<not> fv_less a b \<Longrightarrow> fv_le b a"
  by (cases a; cases b) auto

lemma fv_le_NaN: "\<not> fv_le NaN x" "\<not> fv_le x NaN"
  by (cases x; simp)+

lemma fv_less_NInf_iff: "x \<noteq> NaN \<Longrightarrow> \<not> fv_less NInf x \<longleftrightarrow> x = NInf"
  by (cases x) auto

lemma candidate_stats_Inr:
  assumes "length mu = 3" "is_3x3 cov"
  shows "portfolio_stats [w1, w2, w3] mu cov rf = Inr (candidate_stats mu cov rf (w1, w2, w3))"
proof -
  have sh: "length mu = length [w1, w2, w3]" using assms(1) by simp
  from is_3x3_shapes [OF assms(2)]
  have "is_matrix cov" "length cov = length [w1, w2, w3]" "ncols cov = length [w1, w2, w3]"
    by simp_all
  from portfolio_stats_shapes [OF sh this, of rf] show ?thesis
    by (simp add: candidate_stats_def)
qed

lemma evaluate_candidates_foldl:
  assumes "length mu = 3" "is_3x3 cov"
  shows "evaluate_candidates mu cov rf cs best
         = Inr (foldl keep_better best (map (candidate_stats mu cov rf) cs))"
proof (induction cs arbitrary: best)
  case Nil
  show ?case by simp
next
  case (Cons c cs)
  obtain w1 w2 w3 where c: "c = (w1, w2, w3)" by (cases c)
  show ?case
    unfolding c
    by (simp add: candidate_stats_Inr [OF assms] bind_err_def Cons.IH keep_better_def)
qed

lemma foldl_keep_better:
  assumes "sharpe_ratio b \<noteq> NaN"
  shows "sharpe_ratio (foldl keep_better b rs) \<noteq> NaN
       \<and> \<not> fv_less (sharpe_ratio (foldl keep_better b rs)) (sharpe_ratio b)
       \<and> (\<forall>j<length rs. \<not> fv_less (sharpe_ratio (foldl keep_better b rs)) (sharpe_ratio (rs ! j)))
       \<and> (foldl keep_better b rs = b
          \<or> (\<exists>k<length rs. foldl keep_better b rs = rs ! k
                \<and> fv_less (sharpe_ratio b) (sharpe_ratio (rs ! k))
                \<and> (\<forall>j<k. \<not> fv_le (sharpe_ratio (rs ! k)) (sharpe_ratio (rs ! j)))))"
proof (induction rs rule: rev_induct)
  case Nil
  show ?case using assms by (simp add: fv_less_irrefl)
next
  case (snoc s rs)
  let ?r = "foldl keep_better b rs"
  from snoc have nn: "sharpe_ratio ?r \<noteq> NaN"
    and nb: "\<not> fv_less (sharpe_ratio ?r) (sharpe_ratio b)"
    and top: "\<And>j. j < length rs \<Longrightarrow> \<not> fv_less (sharpe_ratio ?r) (sharpe_ratio (rs ! j))"
    and pos: "?r = b \<or> (\<exists>k<length rs. ?r = rs ! k
                \<and> fv_less (sharpe_ratio b) (sharpe_ratio (rs ! k))
                \<and> (\<forall>j<k. \<not> fv_le (sharpe_ratio (rs ! k)) (sharpe_ratio (rs ! j))))"
    by blast+
  show ?case
  proof (cases "fv_less (sharpe_ratio ?r) (sharpe_ratio s)")
    case True
    then have r': "foldl keep_better b (rs @ [s]) = s" by (simp add: keep_better_def)
    have 1: "sharpe_ratio s \<noteq> NaN" using fv_less_not_NaN [OF True] by simp
    have bs: "fv_less (sharpe_ratio b) (sharpe_ratio s)"
      using pos True by (auto intro: fv_less_trans)
    have 2: "\<not> fv_less (sharpe_ratio s) (sharpe_ratio b)"
      using fv_less_trans [OF True] nb by blast
    have 3: "\<not> fv_less (sharpe_ratio s) (sharpe_ratio ((rs @ [s]) ! j))" if "j < length (rs @ [s])" for j
    proof (cases "j < length rs")
      case True
      then show ?thesis
        using fv_less_trans [OF \<open>fv_less (sharpe_ratio ?r) (sharpe_ratio s)\<close>] top [OF True]
        by (auto simp add: nth_append)
    next
      case False
      with that have "j = length rs" by simp
      then show ?thesis by (simp add: fv_less_irrefl)
    qed
    have 4: "\<not> fv_le (sharpe_ratio s) (sharpe_ratio (rs ! j))" if "j < length rs" for j
      using fv_less_le_trans [OF True] top [OF that] by blast
    have "\<exists>k<length (rs @ [s]). s = (rs @ [s]) ! k
              \<and> fv_less (sharpe_ratio b) (sharpe_ratio ((rs @ [s]) ! k))
              \<and> (\<forall>j<k. \<not> fv_le (sharpe_ratio ((rs @ [s]) ! k)) (sharpe_ratio ((rs @ [s]) ! j)))"
      using bs 4 by (intro exI [of _ "length rs"]) (simp add: nth_append)
    with 1 2 3 show ?thesis unfolding r' by blast
  next
    case False
    then have r': "foldl keep_better b (rs @ [s]) = ?r" by (simp add: keep_better_def)
    have 3: "\<not> fv_less (sharpe_ratio ?r) (sharpe_ratio ((rs @ [s]) ! j))" if "j < length (rs @ [s])" for j
    proof (cases "j < length rs")
      case True
      then show ?thesis using top [OF True] by (simp add: nth_append)
    next
      case F: False
      with that have "j = length rs" by simp
      then show ?thesis using False by simp
    qed
    have 4: "?r = b \<or> (\<exists>k<length (rs @ [s]). ?r = (rs @ [s]) ! k
              \<and> fv_less (sharpe_ratio b) (sharpe_ratio ((rs @ [s]) ! k))
              \<and> (\<forall>j<k. \<not> fv_le (sharpe_ratio ((rs @ [s]) ! k)) (sharpe_ratio ((rs @ [s]) ! j))))"
    proof (rule disjE [OF pos])
      assume "?r = b" then show ?thesis by simp
    next
      assume "\<exists>k<length rs. ?r = rs ! k
                \<and> fv_less (sharpe_ratio b) (sharpe_ratio (rs ! k))
                \<and> (\<forall>j<k. \<not> fv_le (sharpe_ratio (rs ! k)) (sharpe_ratio (rs ! j)))"
      then obtain k where k: "k < length rs" "?r = rs ! k"
          "fv_less (sharpe_ratio b) (sharpe_ratio (rs ! k))"
          "\<forall>j<k. \<not> fv_le (sharpe_ratio (rs ! k)) (sharpe_ratio (rs ! j))"
        by blast
      have "k < length (rs @ [s]) \<and> ?r = (rs @ [s]) ! k
              \<and> fv_less (sharpe_ratio b) (sharpe_ratio ((rs @ [s]) ! k))
              \<and> (\<forall>j<k. \<not> fv_le (sharpe_ratio ((rs @ [s]) ! k)) (sharpe_ratio ((rs @ [s]) ! j)))"
        using k by (simp add: nth_append)
      then show ?thesis by blast
    qed
    from nn nb 3 4 show ?thesis unfolding r' by blast
  qed
qed

lemma py_round_of_int: "py_round (of_int k) = k"
  by (simp add: py_round_def)

lemma linspace_first: "1 \<le> n \<Longrightarrow> a \<in> set (linspace a b n)"
proof -
  assume n: "1 \<le> n"
  show ?thesis
  proof (cases "n = 1")
    case True then show ?thesis by (simp add: linspace_def)
  next
    case False
    with n have "0 < n" by simp
    then have "0 \<in> set [0..<n]" by simp
    then have "a + real 0 * ((b - a) / real (n - 1)) \<in> set (linspace a b n)"
      using False unfolding linspace_def by (simp only: if_False set_map) (rule imageI)
    then show ?thesis by simp
  qed
qed

lemma linspace_last: "2 \<le> n \<Longrightarrow> b \<in> set (linspace a b n)"
proof -
  assume n: "2 \<le> n"
  then have ne: "n \<noteq> 1" by simp
  from n have "n - 1 \<in> set [0..<n]" by simp
  then have "a + real (n - 1) * ((b - a) / real (n - 1)) \<in> set (linspace a b n)"
    using ne unfolding linspace_def by (simp only: if_False set_map) (rule imageI)
  moreover have "real (n - 1) * ((b - a) / real (n - 1)) = b - a" using n by simp
  ultimately show ?thesis by simp
qed

lemma spec_candidates_memI:
  assumes "w1 \<in> set (linspace 0 1 (nat n))"
    and "w2 \<in> set (linspace 0 (1 - w1) (nat (max 2 (py_round ((1 - w1) * of_int (n - 1)) + 1))))"
  shows "(w1, w2, 1 - w1 - w2) \<in> set (spec_candidates n)"
  using assms by (auto simp add: spec_candidates_def)

lemma corners_in_grid:
  assumes "3 \<le> n"
  shows "(1, 0, 0) \<in> set (spec_candidates n)"
    and "(0, 1, 0) \<in> set (spec_candidates n)"
    and "(0, 0, 1) \<in> set (spec_candidates n)"
proof -
  from assms have n2: "2 \<le> nat n" and n1: "1 \<le> nat n" by simp_all
  have g0: "0 \<in> set (linspace 0 1 (nat n))" by (rule linspace_first [OF n1])
  have g1: "1 \<in> set (linspace 0 1 (nat n))" by (rule linspace_last [OF n2])
  have r0: "py_round ((1 - 0) * of_int (n - 1)) = n - 1"
    using py_round_of_int [of "n - 1"] by simp
  have k0: "nat (max 2 (py_round ((1 - 0) * of_int (n - 1)) + 1)) = nat n"
    unfolding r0 using assms by simp
  have r1: "py_round ((1 - 1) * of_int (n - 1)) = 0"
    using py_round_of_int [of 0] by simp
  have k1: "nat (max 2 (py_round ((1 - 1) * of_int (n - 1)) + 1)) = 2"
    unfolding r1 by simp
  have a: "0 \<in> set (linspace 0 (1 - 1) (nat (max 2 (py_round ((1 - 1) * of_int (n - 1)) + 1))))"
    unfolding k1 by (rule linspace_first) simp
  have b: "1 \<in> set (linspace 0 (1 - 0) (nat (max 2 (py_round ((1 - 0) * of_int (n - 1)) + 1))))"
    unfolding k0 using linspace_last [OF n2, where a = 0 and b = 1] by simp
  have c: "0 \<in> set (linspace 0 (1 - 0) (nat (max 2 (py_round ((1 - 0) * of_int (n - 1)) + 1))))"
    unfolding k0 by (rule linspace_first [OF n1])
  from spec_candidates_memI [OF g1 a] show "(1, 0, 0) \<in> set (spec_candidates n)" by simp
  from spec_candidates_memI [OF g0 b] show "(0, 1, 0) \<in> set (spec_candidates n)" by simp
  from spec_candidates_memI [OF g0 c] show "(0, 0, 1) \<in> set (spec_candidates n)" by simp
qed

lemma long_only_foldl:
  assumes "validate_inputs mu cov = Inr (mu, cov)" "3 \<le> n"
  shows "optimize_sharpe_long_only mu cov rf n
     = Inr (foldl keep_better (initial_best mu cov)
              (map (candidate_stats mu cov rf) (spec_candidates n)))"
proof -
  from assms(1) have "length mu = 3" "is_3x3 cov" by (simp_all add: validate_inputs_valid)
  from evaluate_candidates_foldl [OF this] assms show ?thesis
    by (simp add: optimize_sharpe_long_only_eq)
qed

lemma long_only_dominates:
  assumes v: "validate_inputs mu cov = Inr (mu, cov)" and n: "3 \<le> n"
    and r: "optimize_sharpe_long_only mu cov rf n = Inr r"
    and c: "c \<in> set (spec_candidates n)"
    and nan: "sharpe_ratio (candidate_stats mu cov rf c) \<noteq> NaN"
  shows "fv_le (sharpe_ratio (candidate_stats mu cov rf c)) (sharpe_ratio r)"
proof -
  let ?rs = "map (candidate_stats mu cov rf) (spec_candidates n)"
  have r': "r = foldl keep_better (initial_best mu cov) ?rs"
    using long_only_foldl [OF v n, of rf] r by simp
  have b: "sharpe_ratio (initial_best mu cov) \<noteq> NaN" by (simp add: initial_best_def)
  from c obtain j where j: "j < length (spec_candidates n)" "spec_candidates n ! j = c"
    by (auto simp add: in_set_conv_nth)
  from foldl_keep_better [OF b, of ?rs] j
  have "sharpe_ratio r \<noteq> NaN"
    and "\<not> fv_less (sharpe_ratio r) (sharpe_ratio (candidate_stats mu cov rf c))"
    unfolding r' by auto
  then show ?thesis using nan by (intro fv_not_less_le) auto
qed

lemma linspace_3: "linspace a b 3 = [a, a + (b - a) / 2, a + 2 * ((b - a) / 2)]"
  by (simp add: linspace_def upt_3)

lemma linspace_2: "linspace a b 2 = [a, b]"
  by (simp add: linspace_def upt_2)

lemma py_round_num: "py_round 2 = 2" "py_round 1 = 1" "py_round 0 = 0"
  using py_round_of_int [of 2] py_round_of_int [of 1] py_round_of_int [of 0] by simp_all

lemma spec_candidates_3:
  "spec_candidates 3 = [(0, 0, 1), (0, 1 / 2, 1 / 2), (0, 1, 0),
                        (1 / 2, 0, 1 / 2), (1 / 2, 1 / 2, 0), (1, 0, 0), (1, 0, 0)]"
  by (simp add: spec_candidates_def linspace_3 linspace_2 py_round_num)

lemma valid_diag: "validate_inputs [0, 0, 1] [[- 1, 0, 0], [0, 1, 0], [0, 0, 1]]
    = Inr ([0, 0, 1], [[- 1, 0, 0], [0, 1, 0], [0, 0, 1]])"
  by (simp add: validate_inputs_def is_3x3_def allclose_def transpose_m_def ncols_def column_def
        upt_3 isclose_def rtol_def)

lemma stats_3:
  "portfolio_stats [x, y, z] [m1, m2, m3] [[a, 0, 0], [0, b, 0], [0, 0, c]] rf
   = (let exp_ret = x * m1 + y * m2 + z * m3;
          vol = np_sqrt (x * a * x + y * b * y + z * c * z)
      in Inr \<lparr>weights = [x, y, z], expected_return = exp_ret, volatility = vol,
              sharpe_ratio = (if fv_le vol (Fin 0) then NInf else fv_div (exp_ret - rf) vol)\<rparr>)"
  by (simp add: portfolio_stats_def bind_err_def matmul_vv_def matmul_vm_def Let_def
       is_matrix_def ncols_def column_def dot_def upt_3 add.assoc)

lemma half_sqrt: "1 / 2 / sqrt (1 / 2) < (1::real)"
proof -
  have "sqrt (1 / 4) < sqrt (1 / 2 :: real)" by simp
  moreover have "sqrt (1 / 4 :: real) = 1 / 2"
    using real_sqrt_abs [of "1 / 2"] by (simp add: power2_eq_square)
  ultimately have "1 / 2 < sqrt (1 / 2 :: real)" by simp
  then show ?thesis by (simp add: field_simps)
qed

lemma ex3: "optimize_sharpe_long_only [0, 0, 1] [[- 1, 0, 0], [0, 1, 0], [0, 0, 1]] 0 3
   = Inr \<lparr>weights = [0, 0, 1], expected_return = 1, volatility = Fin 1, sharpe_ratio = Fin 1\<rparr>"
  using half_sqrt
  by (simp add: optimize_sharpe_long_only_eq [OF valid_diag] spec_candidates_3 initial_best_def
        stats_3 bind_err_def Let_def np_sqrt_def np_div_def)

lemma linspace_strict:
  assumes "a < b"
  shows "sorted_wrt (<) (linspace a b n)"
proof (cases "n = 1")
  case True
  then show ?thesis by (simp add: linspace_def)
next
  case False
  have "sorted_wrt (\<lambda>i j. a + real i * ((b - a) / real (n - 1)) < a + real j * ((b - a) / real (n - 1)))
          [0..<n]"
  proof (rule sorted_wrt_mono_rel [OF _ sorted_wrt_upt])
    fix i j assume "i \<in> set [0..<n]" "j \<in> set [0..<n]" "i < j"
    then have "2 \<le> n" by simp
    then have "0 < (b - a) / real (n - 1)" using assms by simp
    moreover have "real i < real j" using \<open>i < j\<close> by simp
    ultimately have "real i * ((b - a) / real (n - 1)) < real j * ((b - a) / real (n - 1))"
      by (rule mult_strict_right_mono [rotated])
    then show "a + real i * ((b - a) / real (n - 1)) < a + real j * ((b - a) / real (n - 1))"
      by (simp only: add_less_cancel_left)
  qed
  then show ?thesis using False by (simp add: linspace_def sorted_wrt_map)
qed

lemma linspace_mono:
  assumes "a \<le> b"
  shows "sorted_wrt (\<le>) (linspace a b n)"
proof (cases "n = 1")
  case True
  then show ?thesis by (simp add: linspace_def)
next
  case False
  have "sorted_wrt (\<lambda>i j. a + real i * ((b - a) / real (n - 1)) \<le> a + real j * ((b - a) / real (n - 1)))
          [0..<n]"
  proof (rule sorted_wrt_mono_rel [OF _ sorted_wrt_upt])
    fix i j assume "i \<in> set [0..<n]" "j \<in> set [0..<n]" "i < j"
    have "0 \<le> (b - a) / real (n - 1)" using assms by simp
    moreover have "real i \<le> real j" using \<open>i < j\<close> by simp
    ultimately have "real i * ((b - a) / real (n - 1)) \<le> real j * ((b - a) / real (n - 1))"
      by (rule mult_right_mono [rotated])
    then show "a + real i * ((b - a) / real (n - 1)) \<le> a + real j * ((b - a) / real (n - 1))"
      by (simp only: add_le_cancel_left)
  qed
  then show ?thesis using False by (simp add: linspace_def sorted_wrt_map)
qed

lemma sorted_wrt_concat_map:
  assumes "sorted_wrt (<) xs"
    and "\<And>x. x \<in> set xs \<Longrightarrow> sorted_wrt R (f x)"
    and "\<And>x y c d. x \<in> set xs \<Longrightarrow> y \<in> set xs \<Longrightarrow> x < y \<Longrightarrow> c \<in> set (f x) \<Longrightarrow> d \<in> set (f y)
          \<Longrightarrow> R c d"
  shows "sorted_wrt R (concat (map f xs))"
  using assms
proof (induction xs)
  case Nil
  show ?case by simp
next
  case (Cons x xs)
  have "sorted_wrt R (concat (map f xs))"
  proof (rule Cons.IH)
    show "sorted_wrt (<) xs" using Cons.prems(1) by simp
    show "sorted_wrt R (f z)" if "z \<in> set xs" for z using Cons.prems(2) that by simp
    show "R c d" if "u \<in> set xs" "v \<in> set xs" "u < v" "c \<in> set (f u)" "d \<in> set (f v)"
      for u v c d
      using Cons.prems(3) [of u v c d] that by simp
  qed
  moreover have "sorted_wrt R (f x)" using Cons.prems(2) by simp
  moreover have "R c d" if "c \<in> set (f x)" "d \<in> set (concat (map f xs))" for c d
  proof -
    from that(2) obtain y where y: "y \<in> set xs" "d \<in> set (f y)" by auto
    with Cons.prems(1) have "x < y" by simp
    with Cons.prems(3) [of x y c d] y that(1) show ?thesis by simp
  qed
  ultimately show ?case by (simp add: sorted_wrt_append)
qed

lemma spec_candidates_order: "sorted_wrt earlier (spec_candidates n)"
  unfolding spec_candidates_def
proof (rule sorted_wrt_concat_map)
  show "sorted_wrt (<) (linspace 0 1 (nat n))" by (rule linspace_strict) simp
next
  fix w1 :: real
  assume "w1 \<in> set (linspace 0 1 (nat n))"
  from linspace_mem [OF this] have "0 \<le> 1 - w1" by simp
  from linspace_mono [OF this]
  show "sorted_wrt earlier (map (\<lambda>w2. (w1, w2, 1 - w1 - w2))
     (linspace 0 (1 - w1) (nat (max 2 (py_round ((1 - w1) * of_int (n - 1)) + 1)))))"
    by (simp add: sorted_wrt_map earlier_def)
next
  fix x y :: real and c d
  assume "x < y"
    and "c \<in> set (map (\<lambda>w2. (x, w2, 1 - x - w2))
      (linspace 0 (1 - x) (nat (max 2 (py_round ((1 - x) * of_int (n - 1)) + 1)))))"
    and "d \<in> set (map (\<lambda>w2. (y, w2, 1 - y - w2))
      (linspace 0 (1 - y) (nat (max 2 (py_round ((1 - y) * of_int (n - 1)) + 1)))))"
  then show "earlier c d" by (auto simp add: earlier_def)
qed

lemma long_only_returns:
  assumes "validate_inputs mu cov = Inr (mu, cov)" "3 \<le> n"
  shows "\<exists>r. optimize_sharpe_long_only mu cov rf n = Inr r"
  using long_only_foldl [OF assms] by simp

text \<open>
  C2. On validated inputs a resolution below 3 fails with InvalidResolutionError; from 3 on,
  the solver returns, and what it returns is the loop body run over exactly the
  specification's list of candidates, in order, from the initial record. Every candidate
  has \<open>w1 \<ge> 0\<close>, \<open>w2 \<ge> 0\<close> and \<open>w1 + w2 + w3 = 1\<close>.
\<close>

theorem grid_search_candidates:
  assumes "validate_inputs mu cov = Inr (mu, cov)"
  shows "(n < 3 \<longrightarrow> optimize_sharpe_long_only mu cov rf n = Inl InvalidResolutionError)
       \<and> (3 \<le> n \<longrightarrow>
            optimize_sharpe_long_only mu cov rf n
              = evaluate_candidates mu cov rf (spec_candidates n) (initial_best mu cov)
            \<and> (\<exists>r. optimize_sharpe_long_only mu cov rf n = Inr r))
       \<and> (\<forall>w1 w2 w3. (w1, w2, w3) \<in> set (spec_candidates n)
            \<longrightarrow> 0 \<le> w1 \<and> 0 \<le> w2 \<and> w1 + w2 + w3 = 1)"
proof -
  have a: "optimize_sharpe_long_only mu cov rf n = Inl InvalidResolutionError" if "n < 3"
    using that by (simp add: optimize_sharpe_long_only_eq [OF assms])
  have b: "optimize_sharpe_long_only mu cov rf n
              = evaluate_candidates mu cov rf (spec_candidates n) (initial_best mu cov)"
    if "3 \<le> n"
    using that by (simp add: optimize_sharpe_long_only_eq [OF assms])
  have c: "\<exists>r. optimize_sharpe_long_only mu cov rf n = Inr r" if "3 \<le> n"
    by (rule long_only_returns [OF assms that])
  from a b c spec_candidates_simplex show ?thesis by blast
qed

lemma valid_id3: "validate_inputs [1, 2, 3] [[1, 0, 0], [0, 1, 0], [0, 0, 1]]
    = Inr ([1, 2, 3], [[1, 0, 0], [0, 1, 0], [0, 0, 1]])"
  by (simp add: validate_inputs_def is_3x3_def allclose_def transpose_m_def ncols_def column_def
        upt_3 isclose_def rtol_def)

theorem grid_search_candidates_witness:
  "optimize_sharpe_long_only [1, 2, 3] [[1, 0, 0], [0, 1, 0], [0, 0, 1]] 0 2
     = Inl InvalidResolutionError
   \<and> (\<exists>r. optimize_sharpe_long_only [1, 2, 3] [[1, 0, 0], [0, 1, 0], [0, 0, 1]] 0 3 = Inr r)
   \<and> (1 / 2, 1 / 2, 0) \<in> set (spec_candidates 3)
   \<and> (0::real) \<le> 1 / 2 \<and> (1 / 2 + 1 / 2 + 0 :: real) = 1"
proof -
  have m: "(1 / 2, 1 / 2, 0) \<in> set (spec_candidates 3)"
    by (simp add: spec_candidates_3)
  from grid_search_candidates [OF valid_id3, of 2 0]
  have "optimize_sharpe_long_only [1, 2, 3] [[1, 0, 0], [0, 1, 0], [0, 0, 1]] 0 2
     = Inl InvalidResolutionError" by simp
  moreover from grid_search_candidates [OF valid_id3, of 3 0]
  have "\<exists>r. optimize_sharpe_long_only [1, 2, 3] [[1, 0, 0], [0, 1, 0], [0, 0, 1]] 0 3 = Inr r"
    and "(0::real) \<le> 1 / 2 \<and> (1 / 2 + 1 / 2 + 0 :: real) = 1"
    using m by blast+
  ultimately show ?thesis using m by blast
qed

text \<open>In support of C3: a corner whose Sharpe ratio is a number is never above the result.\<close>

lemma long_only_beats_corners:
  assumes v: "validate_inputs mu cov = Inr (mu, cov)" and n: "3 \<le> n"
    and r: "optimize_sharpe_long_only mu cov rf n = Inr r"
    and c: "c = (1, 0, 0) \<or> c = (0, 1, 0) \<or> c = (0, 0, 1)"
    and nan: "sharpe_ratio (candidate_stats mu cov rf c) \<noteq> NaN"
  shows "fv_le (sharpe_ratio (candidate_stats mu cov rf c)) (sharpe_ratio r)"
proof -
  from c corners_in_grid [OF n] have "c \<in> set (spec_candidates n)" by auto
  from long_only_dominates [OF v n r this nan] show ?thesis .
qed

text \<open>
  C3. The three corners are candidates (\<open>corners_in_grid\<close>), and the result is at least
  every corner whose Sharpe ratio is a number (\<open>long_only_beats_corners\<close>). But the
  statistics do not clamp a negative variance: on the validated input with covariance
  diag(-1, 1, 1) the corner (1, 0, 0) has Sharpe ratio NaN, the solver returns the corner
  (0, 0, 1) with Sharpe ratio 1, and \<open>1 \<ge> NaN\<close> is false.
\<close>

theorem grid_search_nan_corner:
  "validate_inputs [0, 0, 1] [[- 1, 0, 0], [0, 1, 0], [0, 0, 1]]
     = Inr ([0, 0, 1], [[- 1, 0, 0], [0, 1, 0], [0, 0, 1]])
   \<and> optimize_sharpe_long_only [0, 0, 1] [[- 1, 0, 0], [0, 1, 0], [0, 0, 1]] 0 3
     = Inr \<lparr>weights = [0, 0, 1], expected_return = 1, volatility = Fin 1, sharpe_ratio = Fin 1\<rparr>
   \<and> portfolio_stats [1, 0, 0] [0, 0, 1] [[- 1, 0, 0], [0, 1, 0], [0, 0, 1]] 0
     = Inr \<lparr>weights = [1, 0, 0], expected_return = 0, volatility = NaN, sharpe_ratio = NaN\<rparr>
   \<and> \<not> fv_le NaN (Fin 1)"
  using ex3 valid_diag by (simp add: stats_3 np_sqrt_def)

text \<open>
  C4. On validated inputs and a resolution of at least 3 the solver returns a result that
  no candidate beats. Either it is the initial record (weights (1, 0, 0), return \<open>mu[0]\<close>,
  volatility \<open>sqrt (cov[0][0])\<close>, Sharpe ratio \<open>-\<infinity>\<close>), or it is the statistics of the
  candidate at some position \<open>k\<close>, its Sharpe ratio is above \<open>-\<infinity>\<close>, and no candidate
  before \<open>k\<close> reaches it: a tie keeps the earlier candidate. If every candidate has Sharpe
  ratio \<open>-\<infinity>\<close> the result is the initial record. The candidates are in the order of
  the loops: lower \<open>w1\<close> first, then lower \<open>w2\<close>.
\<close>

theorem grid_search_first_maximum:
  assumes v: "validate_inputs mu cov = Inr (mu, cov)" and n: "3 \<le> n"
  shows "\<exists>r. optimize_sharpe_long_only mu cov rf n = Inr r
     \<and> (\<forall>j<length (spec_candidates n).
           \<not> fv_less (sharpe_ratio r)
               (sharpe_ratio (candidate_stats mu cov rf (spec_candidates n ! j))))
     \<and> (r = \<lparr>weights = [1, 0, 0], expected_return = mu ! 0,
              volatility = np_sqrt (cov ! 0 ! 0), sharpe_ratio = NInf\<rparr>
        \<or> (\<exists>k<length (spec_candidates n).
              r = candidate_stats mu cov rf (spec_candidates n ! k)
            \<and> fv_less NInf (sharpe_ratio r)
            \<and> (\<forall>j<k. \<not> fv_le (sharpe_ratio r)
                         (sharpe_ratio (candidate_stats mu cov rf (spec_candidates n ! j))))))
     \<and> ((\<forall>c\<in>set (spec_candidates n). sharpe_ratio (candidate_stats mu cov rf c) = NInf)
          \<longrightarrow> r = \<lparr>weights = [1, 0, 0], expected_return = mu ! 0,
                    volatility = np_sqrt (cov ! 0 ! 0), sharpe_ratio = NInf\<rparr>)
     \<and> (\<forall>w1 w2 w3. portfolio_stats [w1, w2, w3] mu cov rf
                      = Inr (candidate_stats mu cov rf (w1, w2, w3)))
     \<and> sorted_wrt earlier (spec_candidates n)"
proof -
  let ?cs = "spec_candidates n"
  let ?rs = "map (candidate_stats mu cov rf) ?cs"
  let ?b = "initial_best mu cov"
  let ?r = "foldl keep_better ?b ?rs"
  have b: "sharpe_ratio ?b \<noteq> NaN" and bN: "sharpe_ratio ?b = NInf"
    by (simp_all add: initial_best_def)
  have r: "optimize_sharpe_long_only mu cov rf n = Inr ?r"
    by (rule long_only_foldl [OF v n])
  note f = foldl_keep_better [OF b, of ?rs]
  have top: "\<forall>j<length ?cs. \<not> fv_less (sharpe_ratio ?r)
               (sharpe_ratio (candidate_stats mu cov rf (?cs ! j)))"
    using f by simp
  have pos: "?r = ?b \<or> (\<exists>k<length ?cs. ?r = candidate_stats mu cov rf (?cs ! k)
            \<and> fv_less NInf (sharpe_ratio ?r)
            \<and> (\<forall>j<k. \<not> fv_le (sharpe_ratio ?r)
                         (sharpe_ratio (candidate_stats mu cov rf (?cs ! j)))))"
  proof -
    from f have "?r = ?b \<or> (\<exists>k<length ?rs. ?r = ?rs ! k
                \<and> fv_less (sharpe_ratio ?b) (sharpe_ratio (?rs ! k))
                \<and> (\<forall>j<k. \<not> fv_le (sharpe_ratio (?rs ! k)) (sharpe_ratio (?rs ! j))))"
      by blast
    then show ?thesis
    proof
      assume "?r = ?b" then show ?thesis by simp
    next
      assume "\<exists>k<length ?rs. ?r = ?rs ! k
                \<and> fv_less (sharpe_ratio ?b) (sharpe_ratio (?rs ! k))
                \<and> (\<forall>j<k. \<not> fv_le (sharpe_ratio (?rs ! k)) (sharpe_ratio (?rs ! j)))"
      then obtain k where k: "k < length ?rs" "?r = ?rs ! k"
        "fv_less (sharpe_ratio ?b) (sharpe_ratio (?rs ! k))"
        "\<forall>j<k. \<not> fv_le (sharpe_ratio (?rs ! k)) (sharpe_ratio (?rs ! j))"
        by blast
      from k(1) have kl: "k < length ?cs" by simp
      have e: "?rs ! j = candidate_stats mu cov rf (?cs ! j)" if "j \<le> k" for j
        using that kl by simp
      have "?r = candidate_stats mu cov rf (?cs ! k)" using k(2) e [of k] by simp
      moreover have "fv_less NInf (sharpe_ratio ?r)" using k(3) k(2) bN by simp
      moreover have "\<forall>j<k. \<not> fv_le (sharpe_ratio ?r)
                         (sharpe_ratio (candidate_stats mu cov rf (?cs ! j)))"
        using k(4) k(2) e by simp
      ultimately show ?thesis using kl by blast
    qed
  qed
  have allN: "?r = ?b" if "\<forall>c\<in>set ?cs. sharpe_ratio (candidate_stats mu cov rf c) = NInf"
  proof (rule disjE [OF pos])
    assume "?r = ?b" then show ?thesis .
  next
    assume "\<exists>k<length ?cs. ?r = candidate_stats mu cov rf (?cs ! k)
            \<and> fv_less NInf (sharpe_ratio ?r)
            \<and> (\<forall>j<k. \<not> fv_le (sharpe_ratio ?r)
                         (sharpe_ratio (candidate_stats mu cov rf (?cs ! j))))"
    then obtain k where k: "k < length ?cs" "?r = candidate_stats mu cov rf (?cs ! k)"
      "fv_less NInf (sharpe_ratio ?r)" by blast
    from k(1) that have "sharpe_ratio (candidate_stats mu cov rf (?cs ! k)) = NInf" by simp
    with k(2) k(3) show ?thesis by simp
  qed
  from v have "length mu = 3" "is_3x3 cov" by (simp_all add: validate_inputs_valid)
  note st = candidate_stats_Inr [OF this, of _ _ _ rf]
  have ib: "?b = \<lparr>weights = [1, 0, 0], expected_return = mu ! 0,
              volatility = np_sqrt (cov ! 0 ! 0), sharpe_ratio = NInf\<rparr>"
    by (simp add: initial_best_def)
  from r top pos allN st spec_candidates_order [of n] show ?thesis
    unfolding ib by blast
qed

theorem grid_search_first_maximum_witness:
  "optimize_sharpe_long_only [1, 2, 3] [[0, 0, 0], [0, 0, 0], [0, 0, 0]] 0 3
     = Inr \<lparr>weights = [1, 0, 0], expected_return = 1, volatility = Fin 0, sharpe_ratio = NInf\<rparr>"
proof -
  have all: "\<forall>c\<in>set (spec_candidates 3).
      sharpe_ratio (candidate_stats [1, 2, 3] [[0, 0, 0], [0, 0, 0], [0, 0, 0]] 0 c) = NInf"
    by (simp add: spec_candidates_3 candidate_stats_def stats_3 np_sqrt_def)
  from grid_search_first_maximum [OF valid_zero, of 3 0] all
  have "optimize_sharpe_long_only [1, 2, 3] [[0, 0, 0], [0, 0, 0], [0, 0, 0]] 0 3
     = Inr \<lparr>weights = [1, 0, 0], expected_return = [1, 2, 3] ! 0,
            volatility = np_sqrt ([[0, 0, 0], [0, 0, 0], [0, 0, 0]] ! 0 ! 0), sharpe_ratio = NInf\<rparr>"
    by auto
  then show ?thesis by (simp add: np_sqrt_def)
qed

end
